theory Spec2Isabelle
  imports Complex_Main
begin

section \<open>Python values\<close>

text \<open>
  The script is Python: integers are unbounded (\<open>int\<close>), a \<open>str\<close> is the list of its
  code points (so \<open>length\<close> is Python's \<open>len\<close>), and an index outside a list raises
  \<open>IndexError\<close>, with negative indices counting from the end.
\<close>

datatype py_error = IndexError | ValueError

type_synonym pystr = "nat list"

definition py_get :: "'a list \<Rightarrow> int \<Rightarrow> py_error + 'a" where
  "py_get xs i =
     (if 0 \<le> i \<and> i < int (length xs) then Inr (xs ! nat i)
      else if i < 0 \<and> - int (length xs) \<le> i then Inr (xs ! nat (int (length xs) + i))
      else Inl IndexError)"

text \<open>\<open>xs.index(v)\<close>: the first position of \<open>v\<close>, \<open>ValueError\<close> when it is absent.\<close>

fun list_index_from :: "'a list \<Rightarrow> 'a \<Rightarrow> int \<Rightarrow> py_error + int" where
  "list_index_from [] v i = Inl ValueError"
| "list_index_from (x # xs) v i = (if x = v then Inr i else list_index_from xs v (i + 1))"

definition list_index :: "'a list \<Rightarrow> 'a \<Rightarrow> py_error + int" where
  "list_index xs v = list_index_from xs v 0"

text \<open>
  An exception ends the function that raised it: the rest runs only on a value.
\<close>

definition bind_err :: "'e + 'a \<Rightarrow> ('a \<Rightarrow> 'e + 'b) \<Rightarrow> 'e + 'b" where
  "bind_err m f = (case m of Inl e \<Rightarrow> Inl e | Inr v \<Rightarrow> f v)"

section \<open>The tokenizer's output and the examples\<close>

text \<open>
  The tokenizer is external. Its output for a batch is a set of parallel arrays, one
  entry per chunk: the token ids, the sequence ids (\<open>None\<close> for a special token, 0 or 1
  for the first or second text), the character offsets of every token and the index of
  the example a chunk comes from.
\<close>

record tokenized =
  input_ids :: "int list list"
  sequence_ids :: "int option list list"
  overflow_to_sample_mapping :: "int list"
  offset_mapping :: "(int \<times> int) list list"

text \<open>One entry of the answers column: \<open>{"answer_start": [...], "text": [...]}\<close>.\<close>

record answers =
  answer_start :: "int list"
  texts :: "pystr list"

definition context_index :: "bool \<Rightarrow> int" where
  "context_index pad_on_right = (if pad_on_right then 1 else 0)"

section \<open>Training labels: \<open>prepare_train_features\<close>\<close>

text \<open>
  \<open>while sequence_ids[token_start_index] != ctx: token_start_index += 1\<close>.
  The read raises once the index leaves the list.
\<close>

function first_context_token :: "int option list \<Rightarrow> int \<Rightarrow> int \<Rightarrow> py_error + int" where
  "first_context_token sids ctx token_start_index =
     (case py_get sids token_start_index of
        Inl e \<Rightarrow> Inl e
      | Inr sid \<Rightarrow>
          if sid \<noteq> Some ctx then first_context_token sids ctx (token_start_index + 1)
          else Inr token_start_index)"
  by pat_completeness auto
termination
  by (relation "measure (\<lambda>(sids, ctx, i). nat (int (length sids) - i))")
     (auto simp: py_get_def split: if_splits)

text \<open>\<open>while sequence_ids[token_end_index] != ctx: token_end_index -= 1\<close>.\<close>

function last_context_token :: "int option list \<Rightarrow> int \<Rightarrow> int \<Rightarrow> py_error + int" where
  "last_context_token sids ctx token_end_index =
     (case py_get sids token_end_index of
        Inl e \<Rightarrow> Inl e
      | Inr sid \<Rightarrow>
          if sid \<noteq> Some ctx then last_context_token sids ctx (token_end_index - 1)
          else Inr token_end_index)"
  by pat_completeness auto
termination
  by (relation "measure (\<lambda>(sids, ctx, i). nat (i + int (length sids) + 1))")
     (auto simp: py_get_def split: if_splits)

text \<open>
  \<open>while token_start_index < len(offsets) and offsets[token_start_index][0] <= start_char:
  token_start_index += 1\<close>.
\<close>

function advance_start :: "(int \<times> int) list \<Rightarrow> int \<Rightarrow> int \<Rightarrow> py_error + int" where
  "advance_start offsets start_char token_start_index =
     (if token_start_index < int (length offsets) then
        (case py_get offsets token_start_index of
           Inl e \<Rightarrow> Inl e
         | Inr off \<Rightarrow>
             if fst off \<le> start_char
             then advance_start offsets start_char (token_start_index + 1)
             else Inr token_start_index)
      else Inr token_start_index)"
  by pat_completeness auto
termination
  by (relation "measure (\<lambda>(offsets, c, i). nat (int (length offsets) - i))")
     (auto simp: py_get_def split: if_splits)

text \<open>\<open>while offsets[token_end_index][1] >= end_char: token_end_index -= 1\<close>.\<close>

function retreat_end :: "(int \<times> int) list \<Rightarrow> int \<Rightarrow> int \<Rightarrow> py_error + int" where
  "retreat_end offsets end_char token_end_index =
     (case py_get offsets token_end_index of
        Inl e \<Rightarrow> Inl e
      | Inr off \<Rightarrow>
          if snd off \<ge> end_char
          then retreat_end offsets end_char (token_end_index - 1)
          else Inr token_end_index)"
  by pat_completeness auto
termination
  by (relation "measure (\<lambda>(offsets, c, i). nat (i + int (length offsets) + 1))")
     (auto simp: py_get_def split: if_splits)

text \<open>
  The labelling of one chunk, from the test on the number of answers to the two
  \<open>append\<close>s: the result is the pair appended to \<open>start_positions\<close> and
  \<open>end_positions\<close>, or the exception raised on the way.
\<close>

definition align_label ::
  "bool \<Rightarrow> int \<Rightarrow> int list \<Rightarrow> int option list \<Rightarrow> (int \<times> int) list \<Rightarrow> answers
     \<Rightarrow> py_error + int \<times> int" where
  "align_label pad_on_right cls_index ids sids offsets ans =
     (if length (answer_start ans) = 0 then Inr (cls_index, cls_index)
      else
        bind_err (py_get (answer_start ans) 0) (\<lambda>start_char.
        bind_err (py_get (texts ans) 0) (\<lambda>answer_text.
        let end_char = start_char + int (length answer_text) in
        bind_err (first_context_token sids (context_index pad_on_right) 0)
          (\<lambda>token_start_index.
        bind_err (last_context_token sids (context_index pad_on_right) (int (length ids) - 1))
          (\<lambda>token_end_index.
        bind_err (py_get offsets token_start_index) (\<lambda>first_off.
        if \<not> fst first_off \<le> start_char then Inr (cls_index, cls_index)
        else
          bind_err (py_get offsets token_end_index) (\<lambda>last_off.
          if \<not> snd last_off \<ge> end_char then Inr (cls_index, cls_index)
          else
            bind_err (advance_start offsets start_char token_start_index) (\<lambda>moved_start.
            bind_err (retreat_end offsets end_char token_end_index) (\<lambda>moved_end.
            Inr (moved_start - 1, moved_end + 1))))))))))"

text \<open>
  The loop \<open>for i, offsets in enumerate(offset_mapping)\<close>, with the two label lists as
  its state. \<open>examples\<close> is the answers column of the batch.
\<close>

fun label_chunks ::
  "bool \<Rightarrow> int \<Rightarrow> answers list \<Rightarrow> tokenized \<Rightarrow> int \<Rightarrow> (int \<times> int) list list
     \<Rightarrow> int list \<times> int list \<Rightarrow> py_error + int list \<times> int list" where
  "label_chunks pad_on_right cls_token_id examples tok i [] acc = Inr acc"
| "label_chunks pad_on_right cls_token_id examples tok i (offsets # rest) acc =
     bind_err (py_get (input_ids tok) i) (\<lambda>ids.
     bind_err (list_index ids cls_token_id) (\<lambda>cls_index.
     bind_err (py_get (sequence_ids tok) i) (\<lambda>sids.
     bind_err (py_get (overflow_to_sample_mapping tok) i) (\<lambda>sample_index.
     bind_err (py_get examples sample_index) (\<lambda>ans.
     bind_err (align_label pad_on_right cls_index ids sids offsets ans) (\<lambda>label.
     label_chunks pad_on_right cls_token_id examples tok (i + 1) rest
       (fst acc @ [fst label], snd acc @ [snd label])))))))"

definition prepare_train_features ::
  "bool \<Rightarrow> int \<Rightarrow> answers list \<Rightarrow> tokenized \<Rightarrow> py_error + int list \<times> int list" where
  "prepare_train_features pad_on_right cls_token_id examples tok =
     label_chunks pad_on_right cls_token_id examples tok 0 (offset_mapping tok) ([], [])"

text \<open>
  One iteration of that loop on its own: the pair that iteration \<open>i\<close> appends for the
  offsets \<open>offsets\<close>, or the exception it raises.
\<close>

definition chunk_label ::
  "bool \<Rightarrow> int \<Rightarrow> answers list \<Rightarrow> tokenized \<Rightarrow> int \<Rightarrow> (int \<times> int) list
     \<Rightarrow> py_error + int \<times> int" where
  "chunk_label pad_on_right cls_token_id examples tok i offsets =
     bind_err (py_get (input_ids tok) i) (\<lambda>ids.
     bind_err (list_index ids cls_token_id) (\<lambda>cls_index.
     bind_err (py_get (sequence_ids tok) i) (\<lambda>sids.
     bind_err (py_get (overflow_to_sample_mapping tok) i) (\<lambda>sample_index.
     bind_err (py_get examples sample_index) (\<lambda>ans.
     align_label pad_on_right cls_index ids sids offsets ans)))))"

text \<open>
  The character span a label stands for, read back through the chunk's offsets:
  \<open>offsets[start][0]\<close> to \<open>offsets[end][1]\<close>.
\<close>

definition label_char_span :: "(int \<times> int) list \<Rightarrow> int \<times> int \<Rightarrow> py_error + int \<times> int" where
  "label_char_span offsets label =
     bind_err (py_get offsets (fst label)) (\<lambda>start_off.
     bind_err (py_get offsets (snd label)) (\<lambda>end_off.
     Inr (fst start_off, snd end_off)))"

text \<open>The offsets of the tokens from position \<open>i0\<close> to position \<open>i1\<close>, both included.\<close>

definition context_offsets :: "(int \<times> int) list \<Rightarrow> nat \<Rightarrow> nat \<Rightarrow> (int \<times> int) list" where
  "context_offsets offsets i0 i1 = take (Suc i1 - i0) (drop i0 offsets)"

section \<open>Truncation to \<open>max_train_samples\<close>, \<open>max_eval_samples\<close>, \<open>max_predict_samples\<close>\<close>

text \<open>
  \<open>dataset.select(range(n))\<close> of the datasets library returns an empty dataset as it
  is; otherwise it keeps the rows 0 to \<open>n - 1\<close> in order, and a row index beyond the
  dataset is an error.
\<close>

definition select_range :: "int \<Rightarrow> 'a list \<Rightarrow> py_error + 'a list" where
  "select_range n dataset =
     (if length dataset = 0 then Inr dataset
      else if n \<le> int (length dataset) then Inr (take (nat n) dataset)
      else Inl IndexError)"

text \<open>
  \<open>map_features\<close> stands for \<open>dataset.map(prepare_..._features, batched=True, ...)\<close>:
  the library call that runs the tokenizer and the feature function over the examples
  and returns one row per chunk.
\<close>

definition preprocess_train_dataset ::
  "('ex list \<Rightarrow> py_error + 'f list) \<Rightarrow> int option \<Rightarrow> (string \<Rightarrow> 'ex list option)
     \<Rightarrow> py_error + 'f list" where
  "preprocess_train_dataset map_features max_train_samples datasets =
     (case datasets ''train'' of
        None \<Rightarrow> Inl ValueError
      | Some train_dataset \<Rightarrow>
          bind_err (case max_train_samples of
                      None \<Rightarrow> Inr train_dataset
                    | Some n \<Rightarrow> select_range n train_dataset) (\<lambda>selected.
          bind_err (map_features selected) (\<lambda>features.
          case max_train_samples of
            None \<Rightarrow> Inr features
          | Some n \<Rightarrow> select_range n features)))"

text \<open>The same steps in \<open>main\<close> under \<open>do_eval\<close> and under \<open>do_predict\<close>.\<close>

definition preprocess_eval_dataset ::
  "('ex list \<Rightarrow> py_error + 'f list) \<Rightarrow> int option \<Rightarrow> (string \<Rightarrow> 'ex list option)
     \<Rightarrow> py_error + 'f list" where
  "preprocess_eval_dataset map_features max_eval_samples datasets =
     (case datasets ''validation'' of
        None \<Rightarrow> Inl ValueError
      | Some eval_examples \<Rightarrow>
          bind_err (case max_eval_samples of
                      None \<Rightarrow> Inr eval_examples
                    | Some n \<Rightarrow> select_range n eval_examples) (\<lambda>selected.
          bind_err (map_features selected) (\<lambda>eval_dataset.
          case max_eval_samples of
            None \<Rightarrow> Inr eval_dataset
          | Some n \<Rightarrow> select_range n eval_dataset)))"

definition preprocess_predict_dataset ::
  "('ex list \<Rightarrow> py_error + 'f list) \<Rightarrow> int option \<Rightarrow> (string \<Rightarrow> 'ex list option)
     \<Rightarrow> py_error + 'f list" where
  "preprocess_predict_dataset map_features max_predict_samples datasets =
     (case datasets ''test'' of
        None \<Rightarrow> Inl ValueError
      | Some predict_examples \<Rightarrow>
          bind_err (case max_predict_samples of
                      None \<Rightarrow> Inr predict_examples
                    | Some n \<Rightarrow> select_range n predict_examples) (\<lambda>selected.
          bind_err (map_features selected) (\<lambda>predict_dataset.
          case max_predict_samples of
            None \<Rightarrow> Inr predict_dataset
          | Some n \<Rightarrow> select_range n predict_dataset)))"

section \<open>Inference features: \<open>prepare_validation_features\<close>\<close>

text \<open>
  \<open>[(o if sequence_ids[k] == context_index else None) for k, o in enumerate(offsets)]\<close>.
\<close>

fun mask_offsets :: "int \<Rightarrow> int option list \<Rightarrow> int \<Rightarrow> 'a option list \<Rightarrow> py_error + 'a option list" where
  "mask_offsets ctx sids k [] = Inr []"
| "mask_offsets ctx sids k (off # rest) =
     bind_err (py_get sids k) (\<lambda>sid.
     bind_err (mask_offsets ctx sids (k + 1) rest) (\<lambda>masked.
     Inr ((if sid = Some ctx then off else None) # masked)))"

text \<open>
  The loop \<open>for i in range(len(tokenized_examples["input_ids"]))\<close>. Its state is the
  \<open>example_id\<close> list and the offset mapping, which it overwrites entry by entry;
  \<open>ids\<close> is the \<open>id\<close> column of the batch.
\<close>

fun validation_chunks ::
  "bool \<Rightarrow> pystr list \<Rightarrow> tokenized \<Rightarrow> nat list
     \<Rightarrow> pystr list \<times> (int \<times> int) option list list
     \<Rightarrow> py_error + pystr list \<times> (int \<times> int) option list list" where
  "validation_chunks pad_on_right ids tok [] st = Inr st"
| "validation_chunks pad_on_right ids tok (i # rest) st =
     bind_err (py_get (sequence_ids tok) (int i)) (\<lambda>sids.
     bind_err (py_get (overflow_to_sample_mapping tok) (int i)) (\<lambda>sample_index.
     bind_err (py_get ids sample_index) (\<lambda>example_id.
     bind_err (py_get (snd st) (int i)) (\<lambda>offsets.
     bind_err (mask_offsets (context_index pad_on_right) sids 0 offsets) (\<lambda>masked.
     validation_chunks pad_on_right ids tok rest
       (fst st @ [example_id], (snd st)[i := masked]))))))"

text \<open>
  The result is the pair of the new \<open>example_id\<close> column and the overwritten
  \<open>offset_mapping\<close>; the tokenizer's offsets are pairs, none of them \<open>None\<close>.
\<close>

definition prepare_validation_features ::
  "bool \<Rightarrow> pystr list \<Rightarrow> tokenized
     \<Rightarrow> py_error + pystr list \<times> (int \<times> int) option list list" where
  "prepare_validation_features pad_on_right ids tok =
     validation_chunks pad_on_right ids tok [0 ..< length (input_ids tok)]
       ([], map (map Some) (offset_mapping tok))"

section \<open>Formatting for the metric: \<open>post_processing_function\<close>\<close>

text \<open>
  An evaluation example has an \<open>id\<close> and its answers column. The records handed to the
  metric are Python dicts with string keys, kept here as lists of key and value in
  insertion order.
\<close>

record example =
  ex_id :: pystr
  ex_answers :: answers

datatype pyval = Str pystr | Float real | Answers answers

type_synonym pydict = "(string \<times> pyval) list"

record eval_prediction =
  predictions :: "pydict list"
  label_ids :: "pydict list"

text \<open>
  \<open>postprocess_qa_predictions\<close> is imported from another module; it is a parameter here,
  already applied to the settings, and returns the dict from example id to predicted
  text as the list of its items.
\<close>

definition post_processing_function ::
  "bool \<Rightarrow> (example list \<Rightarrow> 'f \<Rightarrow> 'p \<Rightarrow> (pystr \<times> pystr) list)
     \<Rightarrow> example list \<Rightarrow> 'f \<Rightarrow> 'p \<Rightarrow> eval_prediction" where
  "post_processing_function version_2_with_negative postprocess_qa_predictions
     examples features preds =
     (let items = postprocess_qa_predictions examples features preds;
          formatted_predictions =
            (if version_2_with_negative then
               map (\<lambda>(k, v). [(''id'', Str k), (''prediction_text'', Str v),
                               (''no_answer_probability'', Float 0)]) items
             else
               map (\<lambda>(k, v). [(''id'', Str k), (''prediction_text'', Str v)]) items);
          references =
            map (\<lambda>ex. [(''id'', Str (ex_id ex)), (''answers'', Answers (ex_answers ex))])
              examples
      in \<lparr>predictions = formatted_predictions, label_ids = references\<rparr>)"

section \<open>The final answer of an example\<close>

text \<open>
  Modelled from the spec: the selection of the final answer by
  \<open>postprocess_qa_predictions\<close>, whose module \<open>bert_qa_ja/utils_qa.py\<close> is not among the
  sources. The spec's Answer Extractor pools the candidate answers of an example, sorts
  them by score in descending order with a stable sort, and then
  \<^item> without negative answers takes the text of the top candidate;
  \<^item> with negative answers computes \<open>score_diff = null_score - best_non_null_score\<close> and
    answers "no answer" (the empty string), recording the null score, if
    \<open>score_diff > null_score_diff_threshold\<close>, and the best non-null candidate otherwise.
  Scores are of any type with a subtraction and an order.
\<close>

record 's candidate =
  cand_text :: pystr
  cand_score :: 's

datatype 's final_answer = Answer pystr | No_answer 's

fun final_text :: "'s final_answer \<Rightarrow> pystr" where
  "final_text (Answer t) = t"
| "final_text (No_answer null_score) = []"

fun insert_by_score :: "('s::linorder) candidate \<Rightarrow> 's candidate list \<Rightarrow> 's candidate list" where
  "insert_by_score c [] = [c]"
| "insert_by_score c (d # ds) =
     (if cand_score c < cand_score d then d # insert_by_score c ds else c # d # ds)"

definition rank_candidates :: "('s::linorder) candidate list \<Rightarrow> 's candidate list" where
  "rank_candidates pool = foldr insert_by_score pool []"

definition best_non_null :: "('s::linorder) candidate list \<Rightarrow> 's candidate option" where
  "best_non_null pool = find (\<lambda>c. cand_text c \<noteq> []) (rank_candidates pool)"

definition select_final_answer ::
  "bool \<Rightarrow> 's \<Rightarrow> 's \<Rightarrow> ('s::{minus,linorder}) candidate list \<Rightarrow> 's final_answer option" where
  "select_final_answer negative_answers_allowed null_score_diff_threshold null_score pool =
     (if \<not> negative_answers_allowed then
        (case rank_candidates pool of
           [] \<Rightarrow> None
         | first_cand # _ \<Rightarrow> Some (Answer (cand_text first_cand)))
      else
        (case best_non_null pool of
           None \<Rightarrow> None
         | Some best \<Rightarrow>
             let score_diff = null_score - cand_score best in
             if score_diff > null_score_diff_threshold then Some (No_answer null_score)
             else Some (Answer (cand_text best))))"

section \<open>Example data\<close>

text \<open>
  A chunk of seven tokens, question first: \<open>[CLS] q [SEP] c c c [SEP]\<close>, with the
  context tokens at the characters 0 to 5, 6 to 8 and 9 to 12 of the context.
\<close>

definition ex_ids :: "int list" where
  "ex_ids = [101, 7, 102, 11, 12, 13, 102]"

definition ex_sids :: "int option list" where
  "ex_sids = [None, Some 0, None, Some 1, Some 1, Some 1, None]"

definition ex_offsets :: "(int \<times> int) list" where
  "ex_offsets = [(0, 0), (0, 4), (0, 0), (0, 5), (6, 8), (9, 12), (0, 0)]"

text \<open>A later window of the same context: its tokens are at 9 to 12, 13 to 15, 16 to 17.\<close>

definition ex_offsets_late :: "(int \<times> int) list" where
  "ex_offsets_late = [(0, 0), (0, 4), (0, 0), (9, 12), (13, 15), (16, 17), (0, 0)]"

definition ex_tokenized :: tokenized where
  "ex_tokenized =
     \<lparr>input_ids = [ex_ids, ex_ids, ex_ids],
      sequence_ids = [ex_sids, ex_sids, ex_sids],
      overflow_to_sample_mapping = [0, 0, 1],
      offset_mapping = [ex_offsets, ex_offsets_late, ex_offsets]\<rparr>"

text \<open>
  The answers column of a batch of two examples: one answer at the characters 6 to 8,
  and no answer at all.
\<close>

definition ex_answers_col :: "answers list" where
  "ex_answers_col =
     [\<lparr>answer_start = [6], texts = [[1, 2]]\<rparr>, \<lparr>answer_start = [], texts = []\<rparr>]"

text \<open>A chunk without any context token: \<open>[CLS] q [SEP]\<close>.\<close>

definition ex_tokenized_no_context :: tokenized where
  "ex_tokenized_no_context =
     \<lparr>input_ids = [[101, 7, 102]],
      sequence_ids = [[None, Some 0, None]],
      overflow_to_sample_mapping = [0],
      offset_mapping = [[(0, 0), (0, 4), (0, 0)]]\<rparr>"

text \<open>The \<open>id\<close> column of the two examples, \<open>q1\<close> and \<open>q2\<close>, and the examples themselves.\<close>

definition ex_id_col :: "pystr list" where
  "ex_id_col = [[113, 49], [113, 50]]"

definition ex_examples :: "example list" where
  "ex_examples =
     [\<lparr>ex_id = [113, 49], ex_answers = \<lparr>answer_start = [6], texts = [[1, 2]]\<rparr>\<rparr>,
      \<lparr>ex_id = [113, 50], ex_answers = \<lparr>answer_start = [], texts = []\<rparr>\<rparr>]"

text \<open>The predictions for them: a text for \<open>q1\<close>, the empty string for \<open>q2\<close>.\<close>

definition ex_predictions :: "(pystr \<times> pystr) list" where
  "ex_predictions = [([113, 49], [1, 2]), ([113, 50], [])]"

text \<open>A pool of three candidates; the one with the highest score has an empty text.\<close>

definition ex_pool :: "int candidate list" where
  "ex_pool =
     [\<lparr>cand_text = [84], cand_score = 5\<rparr>,
      \<lparr>cand_text = [], cand_score = 7\<rparr>,
      \<lparr>cand_text = [74, 80], cand_score = 4\<rparr>]"

text \<open>A train split of three examples, each of which gives two chunks.\<close>

definition ex_chunks_of :: "nat \<Rightarrow> (nat \<times> nat) list" where
  "ex_chunks_of ex = [(ex, 0), (ex, 1)]"

definition ex_datasets :: "string \<Rightarrow> nat list option" where
  "ex_datasets split = (if split = ''train'' then Some [0, 1, 2] else None)"

declare first_context_token.simps [simp del]
declare last_context_token.simps [simp del]
declare advance_start.simps [simp del]
declare retreat_end.simps [simp del]

section \<open>Basic facts\<close>

lemma bind_err_simps [simp]:
  "bind_err (Inl e) f = Inl e"
  "bind_err (Inr v) f = f v"
  by (simp_all add: bind_err_def)

lemma py_get_0 [simp]: "py_get (x # xs) 0 = Inr x" "py_get [] 0 = Inl IndexError"
  by (simp_all add: py_get_def)

lemma py_get_nat: "py_get xs (int i) = (if i < length xs then Inr (xs ! i) else Inl IndexError)"
  by (simp add: py_get_def)

lemma py_get_nat_Inr: "py_get xs (int i) = Inr v \<Longrightarrow> i < length xs \<and> v = xs ! i"
  by (auto simp: py_get_nat split: if_splits)

lemma py_get_Inr_set: "py_get xs i = Inr v \<Longrightarrow> v \<in> set xs"
  by (auto simp: py_get_def split: if_splits)

lemma py_get_Inl: "py_get xs i = Inl e \<Longrightarrow> e = IndexError"
  by (auto simp: py_get_def split: if_splits)

lemma bind_err_Inr: "bind_err m f = Inr r \<Longrightarrow> \<exists>v. m = Inr v \<and> f v = Inr r"
  by (cases m) auto

section \<open>The scans of the training labels\<close>

lemma first_context_token_absent:
  "Some ctx \<notin> set sids \<Longrightarrow> first_context_token sids ctx i = Inl IndexError"
proof (induction sids ctx i rule: first_context_token.induct)
  case (1 sids ctx i)
  show ?case
  proof (cases "py_get sids i")
    case (Inl e)
    with py_get_Inl [OF Inl] show ?thesis
      by (subst first_context_token.simps) simp
  next
    case (Inr sid)
    with 1(2) have ne: "sid \<noteq> Some ctx"
      using py_get_Inr_set by fastforce
    from 1(1) [OF Inr ne] 1(2) Inr ne show ?thesis
      by (subst first_context_token.simps) simp
  qed
qed

lemma first_context_token_Inr:
  "first_context_token sids ctx i = Inr r \<Longrightarrow> py_get sids r = Inr (Some ctx)"
proof (induction sids ctx i rule: first_context_token.induct)
  case (1 sids ctx i)
  from 1(2) show ?case
    by (subst (asm) first_context_token.simps) (auto split: sum.splits if_splits intro: 1(1))
qed

lemma last_context_token_Inr:
  "last_context_token sids ctx i = Inr r \<Longrightarrow> py_get sids r = Inr (Some ctx)"
proof (induction sids ctx i rule: last_context_token.induct)
  case (1 sids ctx i)
  from 1(2) show ?case
    by (subst (asm) last_context_token.simps) (auto split: sum.splits if_splits intro: 1(1))
qed

text \<open>
  From position 0 the forward scan stops at the first context token, and from the last
  position the backward scan stops at the last one.
\<close>

lemma first_context_token_finds:
  assumes "ts < length sids" "sids ! ts = Some ctx" "Some ctx \<notin> set (take ts sids)" "i \<le> ts"
  shows "first_context_token sids ctx (int i) = Inr (int ts)"
  using assms(4)
proof (induction "ts - i" arbitrary: i)
  case 0
  then have "i = ts" by simp
  with assms(1,2) show ?case
    by (subst first_context_token.simps) (simp add: py_get_nat)
next
  case (Suc d)
  then have i: "i < ts" "d = ts - Suc i" "Suc i \<le> ts" by simp_all
  then have "sids ! i \<in> set (take ts sids)"
    using assms(1) by (metis in_set_conv_nth length_take min.absorb2 less_imp_le nth_take)
  with assms(3) have ne: "sids ! i \<noteq> Some ctx" by auto
  have "first_context_token sids ctx (int i) = first_context_token sids ctx (int (Suc i))"
    using i(1) assms(1) ne by (subst first_context_token.simps) (simp add: py_get_nat add.commute)
  with Suc.hyps(1) [OF i(2,3)] show ?case by simp
qed

lemma last_context_token_finds:
  assumes "te < length sids" "sids ! te = Some ctx" "Some ctx \<notin> set (drop (Suc te) sids)"
    and "te \<le> i" "i < length sids"
  shows "last_context_token sids ctx (int i) = Inr (int te)"
  using assms(4,5)
proof (induction "i - te" arbitrary: i)
  case 0
  then have "i = te" by simp
  with assms(1,2) show ?case
    by (subst last_context_token.simps) (simp add: py_get_nat)
next
  case (Suc d)
  then obtain i' where i': "i = Suc i'" "te \<le> i'" "d = i' - te" "i' < length sids"
    by (cases i) auto
  have "sids ! i = drop (Suc te) sids ! (i - Suc te)"
    using i' Suc.prems by simp
  moreover have "i - Suc te < length (drop (Suc te) sids)"
    using i' Suc.prems by simp
  ultimately have "sids ! i \<in> set (drop (Suc te) sids)"
    by (metis nth_mem)
  with assms(3) have ne: "sids ! i \<noteq> Some ctx" by auto
  have "last_context_token sids ctx (int i) = last_context_token sids ctx (int i - 1)"
    using Suc.prems ne by (subst last_context_token.simps) (simp add: py_get_nat)
  moreover have "int i - 1 = int i'" using i' by simp
  ultimately show ?case using Suc.hyps(1) [OF i'(3,2,4)] by simp
qed

text \<open>The two scans of a chunk whose token ids and sequence ids have the same length.\<close>

lemma context_window_scans:
  assumes "length ids = length sids"
    and "i0 < length sids" "sids ! i0 = Some ctx" "Some ctx \<notin> set (take i0 sids)"
    and "i1 < length sids" "sids ! i1 = Some ctx" "Some ctx \<notin> set (drop (Suc i1) sids)"
  shows "first_context_token sids ctx 0 = Inr (int i0)"
    and "last_context_token sids ctx (int (length ids) - 1) = Inr (int i1)"
proof -
  from first_context_token_finds [OF assms(2,3,4), of 0]
  show "first_context_token sids ctx 0 = Inr (int i0)" by simp
  have "int (length ids) - 1 = int (length sids - 1)"
    using assms(1,2) by (cases "length sids") simp_all
  moreover have "last_context_token sids ctx (int (length sids - 1)) = Inr (int i1)"
    using assms(5) by (intro last_context_token_finds [OF assms(5,6,7)]) simp_all
  ultimately show "last_context_token sids ctx (int (length ids) - 1) = Inr (int i1)"
    by simp
qed

lemma advance_start_step:
  "i < length offs \<Longrightarrow> fst (offs ! i) \<le> sc \<Longrightarrow>
   advance_start offs sc (int i) = advance_start offs sc (int (Suc i))"
  by (subst advance_start.simps) (simp add: py_get_nat add.commute)

lemma advance_start_stop:
  "i < length offs \<Longrightarrow> sc < fst (offs ! i) \<Longrightarrow> advance_start offs sc (int i) = Inr (int i)"
  by (subst advance_start.simps) (simp add: py_get_nat)

text \<open>
  The forward scan passes every token that starts at or before \<open>start_char\<close> and stops
  at the first one that starts after it.
\<close>

lemma advance_start_run:
  assumes "i \<le> k" "Suc k < length offs"
    and "\<forall>j. i \<le> j \<and> j \<le> k \<longrightarrow> fst (offs ! j) \<le> sc"
    and "sc < fst (offs ! Suc k)"
  shows "advance_start offs sc (int i) = Inr (int (Suc k))"
  using assms
proof (induction "k - i" arbitrary: i)
  case 0
  then have i: "i = k" by simp
  have "advance_start offs sc (int k) = advance_start offs sc (int (Suc k))"
    using 0 i by (intro advance_start_step) auto
  also have "\<dots> = Inr (int (Suc k))"
    using 0 by (intro advance_start_stop) auto
  finally show ?case using i by simp
next
  case (Suc d)
  then have "d = k - Suc i" "Suc i \<le> k" by simp_all
  moreover have "\<forall>j. Suc i \<le> j \<and> j \<le> k \<longrightarrow> fst (offs ! j) \<le> sc"
    using Suc.prems(3) by simp
  ultimately have "advance_start offs sc (int (Suc i)) = Inr (int (Suc k))"
    using Suc.hyps(1) Suc.prems(2,4) by blast
  moreover have "advance_start offs sc (int i) = advance_start offs sc (int (Suc i))"
    using Suc.prems by (intro advance_start_step) auto
  ultimately show ?case
    by (simp only:)
qed

lemma retreat_end_step:
  "i < length offs \<Longrightarrow> ec \<le> snd (offs ! i) \<Longrightarrow>
   retreat_end offs ec (int i) = retreat_end offs ec (int i - 1)"
  by (subst retreat_end.simps) (simp add: py_get_nat)

lemma retreat_end_stop:
  "i < length offs \<Longrightarrow> snd (offs ! i) < ec \<Longrightarrow> retreat_end offs ec (int i) = Inr (int i)"
  by (subst retreat_end.simps) (simp add: py_get_nat)

text \<open>
  The backward scan passes every token that ends at or after \<open>end_char\<close> and stops at
  the first one that ends before it.
\<close>

lemma retreat_end_run:
  assumes "Suc k \<le> i" "i < length offs"
    and "\<forall>j. Suc k \<le> j \<and> j \<le> i \<longrightarrow> ec \<le> snd (offs ! j)"
    and "snd (offs ! k) < ec"
  shows "retreat_end offs ec (int i) = Inr (int k)"
  using assms
proof (induction "i - Suc k" arbitrary: i)
  case 0
  then have i: "i = Suc k" by simp
  with 0 have "retreat_end offs ec (int i) = retreat_end offs ec (int i - 1)"
    by (intro retreat_end_step) auto
  also have "int i - 1 = int k" using i by simp
  also have "retreat_end offs ec (int k) = Inr (int k)"
    using 0 i by (intro retreat_end_stop) auto
  finally show ?case .
next
  case (Suc d)
  then obtain i' where i': "i = Suc i'" "Suc k \<le> i'" "d = i' - Suc k"
    by (cases i) auto
  have "retreat_end offs ec (int i') = Inr (int k)"
    using Suc.hyps(1) [OF i'(3) i'(2)] Suc.prems i' by auto
  moreover have "retreat_end offs ec (int i) = retreat_end offs ec (int i - 1)"
    using Suc.prems by (intro retreat_end_step) auto
  moreover have "int i - 1 = int i'" using i' by simp
  ultimately show ?case by simp
qed

lemma context_offsets_nth:
  "i0 \<le> j \<Longrightarrow> j \<le> i1 \<Longrightarrow> i1 < length offs \<Longrightarrow> context_offsets offs i0 i1 ! (j - i0) = offs ! j"
  by (simp add: context_offsets_def)

lemma context_offsets_length:
  "i0 \<le> i1 \<Longrightarrow> i1 < length offs \<Longrightarrow> length (context_offsets offs i0 i1) = Suc i1 - i0"
  by (simp add: context_offsets_def)

lemma context_offsets_mono:
  assumes "sorted_wrt (<) (map f (context_offsets offs i0 i1))"
    and "i0 \<le> a" "a < b" "b \<le> i1" "i1 < length offs"
  shows "f (offs ! a) < f (offs ! b)"
proof -
  have len: "length (context_offsets offs i0 i1) = Suc i1 - i0"
    using assms by (intro context_offsets_length) auto
  have "map f (context_offsets offs i0 i1) ! (a - i0) < map f (context_offsets offs i0 i1) ! (b - i0)"
    using assms len by (intro sorted_wrt_nth_less [OF assms(1)]) auto
  then show ?thesis
    using assms len by (simp add: context_offsets_nth)
qed

lemma align_label_no_context:
  assumes "answer_start ans \<noteq> []" "Some (context_index por) \<notin> set sids"
  shows "\<exists>e. align_label por cls_index ids sids offs ans = Inl e"
proof -
  obtain s ss where s: "answer_start ans = s # ss"
    using assms(1) by (cases "answer_start ans") auto
  show ?thesis
  proof (cases "texts ans")
    case Nil
    with s show ?thesis by (simp add: align_label_def)
  next
    case (Cons t ts)
    with s assms(2) show ?thesis
      by (simp add: align_label_def first_context_token_absent)
  qed
qed

section \<open>The labelling loop\<close>

lemma label_chunks_append:
  "label_chunks por cls exs tok i rest acc = Inr (sp, ep) \<Longrightarrow>
   \<exists>sp' ep'. sp = fst acc @ sp' \<and> ep = snd acc @ ep' \<and>
     length sp' = length rest \<and> length ep' = length rest"
proof (induction rest arbitrary: i acc)
  case Nil
  then show ?case by auto
next
  case (Cons offsets rest)
  from Cons.prems obtain label where
    "label_chunks por cls exs tok (i + 1) rest (fst acc @ [fst label], snd acc @ [snd label])
       = Inr (sp, ep)"
    by (auto dest!: bind_err_Inr)
  from Cons.IH [OF this] show ?case by auto
qed

text \<open>The labels at position \<open>j\<close> are the ones computed for chunk \<open>j\<close>.\<close>

lemma label_chunks_nth:
  assumes "label_chunks por cls exs tok (int i) rest acc = Inr (sp, ep)" "j < length rest"
  shows "\<exists>ids c sids si ans.
           py_get (input_ids tok) (int (i + j)) = Inr ids \<and> list_index ids cls = Inr c \<and>
           py_get (sequence_ids tok) (int (i + j)) = Inr sids \<and>
           py_get (overflow_to_sample_mapping tok) (int (i + j)) = Inr si \<and>
           py_get exs si = Inr ans \<and>
           align_label por c ids sids (rest ! j) ans
             = Inr (sp ! (length (fst acc) + j), ep ! (length (snd acc) + j))"
  using assms
proof (induction rest arbitrary: i j acc)
  case Nil
  then show ?case by simp
next
  case (Cons offsets rest)
  from Cons.prems(1) obtain ids c sids si ans label where step:
    "py_get (input_ids tok) (int i) = Inr ids" "list_index ids cls = Inr c"
    "py_get (sequence_ids tok) (int i) = Inr sids"
    "py_get (overflow_to_sample_mapping tok) (int i) = Inr si"
    "py_get exs si = Inr ans"
    "align_label por c ids sids offsets ans = Inr label"
    and rest: "label_chunks por cls exs tok (int (Suc i)) rest
      (fst acc @ [fst label], snd acc @ [snd label]) = Inr (sp, ep)"
    by (auto dest!: bind_err_Inr simp: add.commute)
  show ?case
  proof (cases j)
    case 0
    from label_chunks_append [OF rest]
    have "sp ! length (fst acc) = fst label" "ep ! length (snd acc) = snd label"
      by (auto simp: nth_append)
    with step 0 show ?thesis by simp
  next
    case (Suc j')
    with Cons.prems(2) have "j' < length rest" by simp
    from Cons.IH [OF rest this] Suc show ?thesis by simp
  qed
qed

text \<open>The loop runs one iteration, \<open>chunk_label\<close>, per chunk.\<close>

lemma label_chunks_step:
  "label_chunks por cls exs tok i (offsets # rest) acc =
     bind_err (chunk_label por cls exs tok i offsets) (\<lambda>label.
       label_chunks por cls exs tok (i + 1) rest (fst acc @ [fst label], snd acc @ [snd label]))"
  by (simp add: chunk_label_def bind_err_def split: sum.splits)

text \<open>When no iteration raises, the loop returns.\<close>

lemma label_chunks_returns:
  assumes "\<forall>j < length rest. \<exists>l. chunk_label por cls exs tok (int (i + j)) (rest ! j) = Inr l"
  shows "\<exists>sp ep. label_chunks por cls exs tok (int i) rest acc = Inr (sp, ep)"
  using assms
proof (induction rest arbitrary: i acc)
  case Nil
  then show ?case by (cases acc) simp
next
  case (Cons offsets rest)
  from Cons.prems
  have "\<exists>l. chunk_label por cls exs tok (int (i + 0)) ((offsets # rest) ! 0) = Inr l"
    by blast
  then obtain l where l: "chunk_label por cls exs tok (int i) offsets = Inr l" by auto
  have "\<forall>j < length rest. \<exists>l. chunk_label por cls exs tok (int (Suc i + j)) (rest ! j) = Inr l"
  proof (intro allI impI)
    fix j assume "j < length rest"
    then have "Suc j < length (offsets # rest)" by simp
    with Cons.prems
    have "\<exists>l. chunk_label por cls exs tok (int (i + Suc j)) ((offsets # rest) ! Suc j) = Inr l"
      by blast
    then show "\<exists>l. chunk_label por cls exs tok (int (Suc i + j)) (rest ! j) = Inr l" by simp
  qed
  from Cons.IH [OF this, of "(fst acc @ [fst l], snd acc @ [snd l])"] l show ?case
    by (simp only: label_chunks_step bind_err_simps) (simp add: add.commute)
qed

text \<open>
  The example batch: its first chunk holds the answer in its second context token, its
  second chunk is a later window that misses the answer, and its third chunk belongs to
  the example without answers.
\<close>

lemma ex_batch_labels:
  "prepare_train_features True 101 ex_answers_col ex_tokenized = Inr ([4, 0, 0], [4, 0, 0])"
  by (simp add: prepare_train_features_def ex_tokenized_def ex_ids_def ex_sids_def
      ex_offsets_def ex_answers_col_def ex_offsets_late_def list_index_def align_label_def
      context_index_def first_context_token.simps last_context_token.simps
      advance_start.simps retreat_end.simps py_get_def)

lemma ex_chunk_labels:
  "chunk_label True 101 ex_answers_col ex_tokenized (int 0) (offset_mapping ex_tokenized ! 0)
     = Inr (4, 4)"
  "chunk_label True 101 ex_answers_col ex_tokenized (int 1) (offset_mapping ex_tokenized ! 1)
     = Inr (0, 0)"
  by (simp_all add: chunk_label_def ex_tokenized_def ex_ids_def ex_sids_def
      ex_offsets_def ex_answers_col_def ex_offsets_late_def list_index_def align_label_def
      context_index_def first_context_token.simps last_context_token.simps
      advance_start.simps retreat_end.simps py_get_def)

section \<open>Claims on the training labels\<close>

text \<open>
  The label of an answer that starts and ends at token boundaries, stated on the results
  of the two scans for the context window.
\<close>

lemma align_label_aligned:
  assumes ans: "answer_start ans = start_char # more_starts" "texts ans = answer_text # more_texts"
    and first: "first_context_token sids (context_index por) 0 = Inr (int i0)"
    and last: "last_context_token sids (context_index por) (int (length ids) - 1) = Inr (int i1)"
    and len: "length offs = length sids"
    and inc: "sorted_wrt (<) (map fst (context_offsets offs i0 i1))"
             "sorted_wrt (<) (map snd (context_offsets offs i0 i1))"
    and k: "i0 \<le> k" "k < i1" "fst (offs ! k) = start_char"
    and k': "i0 \<le> k'" "k' \<le> i1" "snd (offs ! k') = start_char + int (length answer_text)"
    and before: "i0 < k' \<or> (0 < i0 \<and> snd (offs ! (i0 - 1)) < start_char + int (length answer_text))"
  shows "align_label por c ids sids offs ans = Inr (int k, int k') \<and>
         label_char_span offs (int k, int k')
           = Inr (start_char, start_char + int (length answer_text))"
proof -
  let ?ec = "start_char + int (length answer_text)"
  have i1: "i1 < length offs"
    using last_context_token_Inr [OF last] len by (auto dest: py_get_nat_Inr)
  have i0: "i0 < length offs" using k i1 by simp
  have fst_le: "fst (offs ! j) \<le> start_char" if "i0 \<le> j" "j \<le> k" for j
  proof (cases "j = k")
    case True then show ?thesis using k by simp
  next
    case False
    then have "fst (offs ! j) < fst (offs ! k)"
      using that k i1 by (intro context_offsets_mono [OF inc(1)]) auto
    then show ?thesis using k by simp
  qed
  have fst_gt: "start_char < fst (offs ! Suc k)"
    using context_offsets_mono [OF inc(1), of k "Suc k"] k i1 by simp
  have snd_ge: "?ec \<le> snd (offs ! j)" if "k' \<le> j" "j \<le> i1" for j
  proof (cases "j = k'")
    case True then show ?thesis using k' by simp
  next
    case False
    then have "snd (offs ! k') < snd (offs ! j)"
      using that k' i1 by (intro context_offsets_mono [OF inc(2)]) auto
    then show ?thesis using k' by simp
  qed
  have k'pos: "0 < k'" using before k' by auto
  have snd_lt: "snd (offs ! (k' - 1)) < ?ec"
  proof (cases "i0 < k'")
    case True
    then have "snd (offs ! (k' - 1)) < snd (offs ! k')"
      using k' i1 by (intro context_offsets_mono [OF inc(2)]) auto
    then show ?thesis using k' by simp
  next
    case False
    then have "k' = i0" using k' by simp
    then show ?thesis using before by auto
  qed
  have start: "advance_start offs start_char (int i0) = Inr (int (Suc k))"
    using k i1 fst_le fst_gt by (intro advance_start_run) auto
  obtain p where p: "k' = Suc p" using k'pos by (cases k') auto
  have "retreat_end offs ?ec (int i1) = Inr (int p)"
    using k' i1 snd_ge snd_lt p by (intro retreat_end_run) auto
  then have stop: "retreat_end offs ?ec (int i1) = Inr (int k' - 1)"
    using p by simp
  have win: "fst (offs ! i0) \<le> start_char" "?ec \<le> snd (offs ! i1)"
    using fst_le [of i0] snd_ge [of i1] k k' by auto
  have "align_label por c ids sids offs ans = Inr (int k, int k')"
    using ans first last i0 i1 win start stop
    by (simp add: align_label_def py_get_nat)
  moreover have "label_char_span offs (int k, int k') = Inr (start_char, ?ec)"
    using k k' i1 by (simp add: label_char_span_def py_get_nat)
  ultimately show ?thesis by simp
qed

text \<open>
  C1, as the code has it. A label is a pair of token positions, so it can only stand for
  a span that starts where a token starts and ends where a token ends. Take a chunk whose
  first and last context tokens are at the positions \<open>i0\<close> and \<open>i1\<close> and whose offsets
  increase strictly from \<open>i0\<close> to \<open>i1\<close>. When the first gold answer starts at the start
  of a context token \<open>k\<close> that is not the last one, and ends at the end of a context token
  \<open>k'\<close> (with the token before the context ending before \<open>end_char\<close> when \<open>k'\<close> is the
  first context token), the label is \<open>(k, k')\<close> and the span read back through the
  offsets is the gold span \<open>[start_char, end_char)\<close>.
\<close>

theorem aligned_answer_round_trip:
  assumes ans: "answer_start ans = start_char # more_starts" "texts ans = answer_text # more_texts"
    and lens: "length ids = length sids" "length offs = length sids"
    and first: "i0 < length sids" "sids ! i0 = Some (context_index por)"
               "Some (context_index por) \<notin> set (take i0 sids)"
    and last: "i1 < length sids" "sids ! i1 = Some (context_index por)"
              "Some (context_index por) \<notin> set (drop (Suc i1) sids)"
    and inc: "sorted_wrt (<) (map fst (context_offsets offs i0 i1))"
             "sorted_wrt (<) (map snd (context_offsets offs i0 i1))"
    and k: "i0 \<le> k" "k < i1" "fst (offs ! k) = start_char"
    and k': "i0 \<le> k'" "k' \<le> i1" "snd (offs ! k') = start_char + int (length answer_text)"
    and before: "i0 < k' \<or> (0 < i0 \<and> snd (offs ! (i0 - 1)) < start_char + int (length answer_text))"
  shows "align_label por cls_index ids sids offs ans = Inr (int k, int k') \<and>
         label_char_span offs (int k, int k')
           = Inr (start_char, start_char + int (length answer_text))"
  using align_label_aligned [OF ans context_window_scans [OF lens(1) first last] lens(2) inc k k' before] .

text \<open>
  In the example chunk the answer at the characters 6 to 8 is the second context token
  (position 4): the label is \<open>(4, 4)\<close> and reads back as \<open>(6, 8)\<close>.
\<close>

theorem aligned_answer_round_trip_witness:
  "ex_sids ! 3 = Some (context_index True) \<and> ex_sids ! 5 = Some (context_index True) \<and>
   Some (context_index True) \<notin> set (take 3 ex_sids) \<and>
   Some (context_index True) \<notin> set (drop (Suc 5) ex_sids) \<and>
   fst (ex_offsets ! 4) = 6 \<and> snd (ex_offsets ! 4) = 6 + int (length [1, 2::nat]) \<and>
   align_label True 0 ex_ids ex_sids ex_offsets \<lparr>answer_start = [6], texts = [[1, 2]]\<rparr>
     = Inr (int 4, int 4) \<and>
   label_char_span ex_offsets (int 4, int 4) = Inr (6, 6 + int (length [1, 2::nat]))"
  using aligned_answer_round_trip [of "\<lparr>answer_start = [6], texts = [[1, 2]]\<rparr>" 6 "[]" "[1, 2]" "[]"
      ex_ids ex_sids ex_offsets 3 True 5 4 4 0]
  by (simp add: ex_ids_def ex_sids_def ex_offsets_def context_offsets_def context_index_def)

text \<open>
  C1 as stated fails. The answer \<open>okyo\<close> at the characters 1 to 5 lies inside the window
  of the example chunk (characters 0 to 12), but inside the first context token (0 to 5):
  the label is \<open>(3, 3)\<close>, which reads back as \<open>(0, 5)\<close>, not \<open>(1, 5)\<close>.
\<close>

theorem round_trip_counterexample:
  "first_context_token ex_sids (context_index True) 0 = Inr 3 \<and>
   last_context_token ex_sids (context_index True) (int (length ex_ids) - 1) = Inr 5 \<and>
   py_get ex_offsets 3 = Inr (0, 5) \<and> py_get ex_offsets 5 = Inr (9, 12) \<and>
   (0::int) \<le> 1 \<and> (1::int) + int (length [111, 107, 121, 111::nat]) \<le> 12 \<and>
   align_label True 0 ex_ids ex_sids ex_offsets
     \<lparr>answer_start = [1], texts = [[111, 107, 121, 111]]\<rparr> = Inr (3, 3) \<and>
   label_char_span ex_offsets (3, 3) = Inr (0, 5) \<and>
   (0, 5) \<noteq> (1 :: int, 1 + int (length [111, 107, 121, 111::nat]))"
  by (simp add: ex_ids_def ex_sids_def ex_offsets_def align_label_def context_index_def
      label_char_span_def first_context_token.simps last_context_token.simps
      advance_start.simps retreat_end.simps py_get_def)

text \<open>
  An answer that starts in the last context token is outside the theorem above: the
  forward scan runs on over the special tokens after the context, whose offsets are
  \<open>(0, 0)\<close>. In the example chunk the answer at the characters 9 to 12 gets the start
  label 6, the closing \<open>[SEP]\<close>, and the end label 5.
\<close>

lemma answer_in_last_context_token:
  "align_label True 0 ex_ids ex_sids ex_offsets \<lparr>answer_start = [9], texts = [[1, 2, 3]]\<rparr>
     = Inr (6, 5)"
  by (simp add: ex_ids_def ex_sids_def ex_offsets_def align_label_def context_index_def
      first_context_token.simps last_context_token.simps
      advance_start.simps retreat_end.simps py_get_def)

text \<open>
  C2: take a chunk of an example with a gold answer, with its first and its last context
  token at the positions \<open>token_start_index\<close> and \<open>token_end_index\<close>. When the span
  \<open>[start_char, start_char + len(answer_text))\<close> of the first gold answer is not inside
  \<open>[offsets[token_start_index][0], offsets[token_end_index][1])\<close>, both labels are the
  CLS index.
\<close>

theorem out_of_window_label:
  assumes ans: "answer_start ans = start_char # more_starts" "texts ans = answer_text # more_texts"
    and lens: "length ids = length sids" "length offs = length sids"
    and first: "token_start_index < length sids"
               "sids ! token_start_index = Some (context_index por)"
               "Some (context_index por) \<notin> set (take token_start_index sids)"
    and last: "token_end_index < length sids"
              "sids ! token_end_index = Some (context_index por)"
              "Some (context_index por) \<notin> set (drop (Suc token_end_index) sids)"
    and out: "\<not> (fst (offs ! token_start_index) \<le> start_char \<and>
                 start_char + int (length answer_text) \<le> snd (offs ! token_end_index))"
  shows "align_label por cls_index ids sids offs ans = Inr (cls_index, cls_index)"
proof -
  note scans = context_window_scans [OF lens(1) first last]
  have "py_get offs (int token_start_index) = Inr (offs ! token_start_index)"
    "py_get offs (int token_end_index) = Inr (offs ! token_end_index)"
    using first(1) last(1) lens(2) by (simp_all add: py_get_nat)
  with ans scans out show ?thesis
    by (auto simp: align_label_def Let_def)
qed

text \<open>
  The later window of the example starts at character 9, after the answer at 6 to 8:
  the label is the CLS index.
\<close>

theorem out_of_window_label_witness:
  "ex_sids ! 3 = Some (context_index True) \<and> ex_sids ! 5 = Some (context_index True) \<and>
   Some (context_index True) \<notin> set (take 3 ex_sids) \<and>
   Some (context_index True) \<notin> set (drop (Suc 5) ex_sids) \<and>
   \<not> (fst (ex_offsets_late ! 3) \<le> 6 \<and> 6 + int (length [1, 2::nat]) \<le> snd (ex_offsets_late ! 5)) \<and>
   align_label True 0 ex_ids ex_sids ex_offsets_late \<lparr>answer_start = [6], texts = [[1, 2]]\<rparr>
     = Inr (0, 0)"
  using out_of_window_label [of "\<lparr>answer_start = [6], texts = [[1, 2]]\<rparr>" 6 "[]" "[1, 2]" "[]"
      ex_ids ex_sids ex_offsets_late 3 True 5 0]
  by (simp add: ex_ids_def ex_sids_def ex_offsets_late_def context_index_def)

text \<open>
  The labels that a returned batch holds for a chunk of an example without answers.
\<close>

lemma no_gold_answer_label_returned:
  assumes "prepare_train_features por cls_token_id exs tok = Inr (sp, ep)"
    and "i < length (offset_mapping tok)"
    and "py_get (overflow_to_sample_mapping tok) (int i) = Inr sample_index"
    and "py_get exs sample_index = Inr ans"
    and "answer_start ans = []"
  shows "\<exists>cls_index. list_index (input_ids tok ! i) cls_token_id = Inr cls_index \<and>
           sp ! i = cls_index \<and> ep ! i = cls_index"
proof -
  from assms(1)
  have "label_chunks por cls_token_id exs tok (int 0) (offset_mapping tok) ([], []) = Inr (sp, ep)"
    by (simp add: prepare_train_features_def)
  from label_chunks_nth [OF this assms(2)] assms(3,4) obtain ids c sids where
    "py_get (input_ids tok) (int i) = Inr ids" "list_index ids cls_token_id = Inr c"
    "align_label por c ids sids (offset_mapping tok ! i) ans = Inr (sp ! i, ep ! i)"
    by auto
  with assms(5) show ?thesis
    by (auto simp: align_label_def dest: py_get_nat_Inr)
qed

text \<open>
  C3: take a chunk \<open>i\<close> of a batch whose example has an empty gold answer set, with its
  token ids, its sequence ids and its example readable and the CLS token at the position
  \<open>cls_index\<close> of its token ids. Unless another chunk of the batch raises,
  \<open>prepare_train_features\<close> returns, with one label pair per chunk, and the start label
  and the end label of chunk \<open>i\<close> are both \<open>cls_index\<close>.
\<close>

theorem no_gold_answer_label:
  assumes others: "\<forall>j < length (offset_mapping tok). j \<noteq> i \<longrightarrow>
      (\<exists>l. chunk_label por cls_token_id exs tok (int j) (offset_mapping tok ! j) = Inr l)"
    and i: "i < length (offset_mapping tok)"
    and reads: "py_get (input_ids tok) (int i) = Inr ids"
      "list_index ids cls_token_id = Inr cls_index"
      "py_get (sequence_ids tok) (int i) = Inr sids"
      "py_get (overflow_to_sample_mapping tok) (int i) = Inr sample_index"
      "py_get exs sample_index = Inr ans"
    and none: "answer_start ans = []"
  shows "\<exists>sp ep. prepare_train_features por cls_token_id exs tok = Inr (sp, ep) \<and>
           length sp = length (offset_mapping tok) \<and> length ep = length (offset_mapping tok) \<and>
           sp ! i = cls_index \<and> ep ! i = cls_index"
proof -
  have self: "chunk_label por cls_token_id exs tok (int i) (offset_mapping tok ! i)
      = Inr (cls_index, cls_index)"
    using reads none by (simp add: chunk_label_def align_label_def)
  have "\<forall>j < length (offset_mapping tok). \<exists>l.
      chunk_label por cls_token_id exs tok (int (0 + j)) (offset_mapping tok ! j) = Inr l"
  proof (intro allI impI)
    fix j assume "j < length (offset_mapping tok)"
    with others self show "\<exists>l. chunk_label por cls_token_id exs tok (int (0 + j))
        (offset_mapping tok ! j) = Inr l"
      by (cases "j = i") auto
  qed
  from label_chunks_returns [OF this, of "([], [])"] obtain sp ep where
    run: "prepare_train_features por cls_token_id exs tok = Inr (sp, ep)"
    by (auto simp: prepare_train_features_def)
  from label_chunks_append [OF run [unfolded prepare_train_features_def]]
  have len: "length sp = length (offset_mapping tok)" "length ep = length (offset_mapping tok)"
    by auto
  from no_gold_answer_label_returned [OF run i reads(4,5) none] reads(1,2)
  have "sp ! i = cls_index \<and> ep ! i = cls_index"
    by (auto dest: py_get_nat_Inr)
  with run len show ?thesis by blast
qed

text \<open>
  The third chunk of the example batch comes from the example without answers; the
  other two chunks get the labels \<open>(4, 4)\<close> and \<open>(0, 0)\<close>. The batch returns, and the
  labels of the third chunk are 0, the position of the CLS token 101.
\<close>

theorem no_gold_answer_label_witness:
  "py_get (overflow_to_sample_mapping ex_tokenized) (int 2) = Inr 1 \<and>
   answer_start (ex_answers_col ! 1) = [] \<and>
   list_index ex_ids 101 = Inr 0 \<and>
   prepare_train_features True 101 ex_answers_col ex_tokenized = Inr ([4, 0, 0], [4, 0, 0]) \<and>
   (\<exists>sp ep. prepare_train_features True 101 ex_answers_col ex_tokenized = Inr (sp, ep) \<and>
      length sp = length (offset_mapping ex_tokenized) \<and>
      length ep = length (offset_mapping ex_tokenized) \<and> sp ! 2 = 0 \<and> ep ! 2 = 0)"
proof -
  have others: "\<forall>j < length (offset_mapping ex_tokenized). j \<noteq> 2 \<longrightarrow>
      (\<exists>l. chunk_label True 101 ex_answers_col ex_tokenized (int j)
              (offset_mapping ex_tokenized ! j) = Inr l)"
  proof (intro allI impI)
    fix j assume "j < length (offset_mapping ex_tokenized)" "j \<noteq> 2"
    then have "j = 0 \<or> j = 1" by (auto simp: ex_tokenized_def)
    with ex_chunk_labels show "\<exists>l. chunk_label True 101 ex_answers_col ex_tokenized (int j)
              (offset_mapping ex_tokenized ! j) = Inr l"
      by auto
  qed
  have i: "2 < length (offset_mapping ex_tokenized)" by (simp add: ex_tokenized_def)
  have reads: "py_get (input_ids ex_tokenized) (int 2) = Inr ex_ids"
    "list_index ex_ids 101 = Inr 0"
    "py_get (sequence_ids ex_tokenized) (int 2) = Inr ex_sids"
    "py_get (overflow_to_sample_mapping ex_tokenized) (int 2) = Inr 1"
    "py_get ex_answers_col 1 = Inr \<lparr>answer_start = [], texts = []\<rparr>"
    by (simp_all add: ex_tokenized_def ex_answers_col_def ex_ids_def list_index_def py_get_def)
  have none: "answer_start (ex_answers_col ! 1) = []" by (simp add: ex_answers_col_def)
  from no_gold_answer_label [OF others i reads] reads(2,4) none ex_batch_labels show ?thesis
    by simp
qed

text \<open>
  C5: when a chunk of an example with a gold answer has no token flagged as a context
  token, \<open>prepare_train_features\<close> raises an error: it returns no labels at all.
\<close>

theorem no_context_token_fails:
  assumes "i < length (offset_mapping tok)"
    and "py_get (sequence_ids tok) (int i) = Inr sids"
    and "Some (context_index por) \<notin> set sids"
    and "py_get (overflow_to_sample_mapping tok) (int i) = Inr sample_index"
    and "py_get exs sample_index = Inr ans"
    and "answer_start ans \<noteq> []"
  shows "\<exists>e. prepare_train_features por cls_token_id exs tok = Inl e"
proof (cases "prepare_train_features por cls_token_id exs tok")
  case (Inl e)
  then show ?thesis by simp
next
  case (Inr labels)
  then have "label_chunks por cls_token_id exs tok (int 0) (offset_mapping tok) ([], [])
      = Inr (fst labels, snd labels)"
    by (simp add: prepare_train_features_def)
  from label_chunks_nth [OF this assms(1)] assms(2,4,5) obtain ids c where
    "align_label por c ids sids (offset_mapping tok ! i) ans = Inr (fst labels ! i, snd labels ! i)"
    by auto
  with align_label_no_context [OF assms(6,3), of c ids "offset_mapping tok ! i"]
  show ?thesis by simp
qed

theorem no_context_token_fails_witness:
  "py_get (sequence_ids ex_tokenized_no_context) (int 0) = Inr [None, Some 0, None] \<and>
   Some (context_index True) \<notin> set [None, Some 0, None] \<and>
   answer_start (ex_answers_col ! 0) \<noteq> [] \<and>
   (\<exists>e. prepare_train_features True 101 ex_answers_col ex_tokenized_no_context = Inl e)"
  using no_context_token_fails [of 0 ex_tokenized_no_context "[None, Some 0, None]" True 0
      ex_answers_col "\<lparr>answer_start = [6], texts = [[1, 2]]\<rparr>" 101]
  by (simp add: ex_tokenized_no_context_def ex_answers_col_def context_index_def)

text \<open>
  C10: when \<open>prepare_train_features\<close> returns, \<open>start_positions\<close> and \<open>end_positions\<close>
  each have one entry per chunk, whichever branch labelled the chunk.
\<close>

theorem one_label_per_chunk:
  assumes "prepare_train_features por cls_token_id exs tok = Inr (sp, ep)"
  shows "length sp = length (offset_mapping tok) \<and> length ep = length (offset_mapping tok)"
  using label_chunks_append [OF assms [unfolded prepare_train_features_def]] by auto

text \<open>
  The example batch takes the three branches in turn: answer in the window, answer out of
  the window, no answer.
\<close>

theorem one_label_per_chunk_witness:
  "prepare_train_features True 101 ex_answers_col ex_tokenized = Inr ([4, 0, 0], [4, 0, 0]) \<and>
   length [4, 0, 0 :: int] = length (offset_mapping ex_tokenized)"
  using one_label_per_chunk [OF ex_batch_labels] ex_batch_labels by simp

section \<open>Claims on the truncation\<close>

lemma length_concat_ge:
  "\<forall>x \<in> set xs. f x \<noteq> [] \<Longrightarrow> length xs \<le> length (concat (map f xs))"
proof (induction xs)
  case Nil
  then show ?case by simp
next
  case (Cons x xs)
  then have "f x \<noteq> []" "length xs \<le> length (concat (map f xs))" by simp_all
  then show ?case by (cases "f x") simp_all
qed

lemma select_range_take:
  "n \<le> length ds \<Longrightarrow> select_range (int n) ds = Inr (take n ds)"
  by (simp add: select_range_def)

lemma truncate_twice:
  assumes "n \<le> length ds"
    and "map_features (take n ds) = Inr (concat (map chunks_of (take n ds)))"
    and "\<forall>ex \<in> set ds. chunks_of ex \<noteq> []"
  shows "bind_err (select_range (int n) ds) (\<lambda>selected.
         bind_err (map_features selected) (\<lambda>features. select_range (int n) features))
         = Inr (take n (concat (map chunks_of (take n ds))))"
proof -
  have "\<forall>ex \<in> set (take n ds). chunks_of ex \<noteq> []"
    using assms(3) by (auto dest: in_set_takeD)
  from length_concat_ge [OF this] assms(1)
  have "n \<le> length (concat (map chunks_of (take n ds)))" by simp
  with assms(1,2) show ?thesis
    by (simp add: select_range_take)
qed

text \<open>
  When the limit falls inside the chunks of example \<open>k\<close>, the chunks kept are all those
  of the examples before \<open>k\<close> and a proper, non-empty prefix of those of example \<open>k\<close>.
\<close>

lemma strict_prefix_of_last:
  assumes "n \<le> length ds"
    and "length (concat (map chunks_of (take k ds))) < n"
    and "n < length (concat (map chunks_of (take (Suc k) ds)))"
    and "\<forall>ex \<in> set ds. chunks_of ex \<noteq> []"
  shows "\<exists>m. 0 < m \<and> m < length (chunks_of (ds ! k)) \<and>
           take n (concat (map chunks_of (take n ds)))
             = concat (map chunks_of (take k ds)) @ take m (chunks_of (ds ! k))"
proof -
  let ?pre = "concat (map chunks_of (take k ds))"
  have kn: "k < n"
  proof (rule ccontr)
    assume "\<not> k < n"
    then have "n \<le> k" by simp
    have "\<forall>ex \<in> set (take k ds). chunks_of ex \<noteq> []"
      using assms(4) by (auto dest: in_set_takeD)
    from length_concat_ge [OF this] have "min (length ds) k \<le> length ?pre" by simp
    with assms(1,2) \<open>n \<le> k\<close> show False by simp
  qed
  with assms(1) have k: "k < length ds" by simp
  have suc: "take (Suc k) ds = take k ds @ [ds ! k]"
    using k by (simp add: take_Suc_conv_app_nth)
  have "take n ds = take (Suc k) (take n ds) @ drop (Suc k) (take n ds)"
    by (rule append_take_drop_id [symmetric])
  also have "take (Suc k) (take n ds) = take (Suc k) ds"
    using kn by (simp add: min_def)
  finally have split: "take n ds = take k ds @ [ds ! k] @ drop (Suc k) (take n ds)"
    using suc by simp
  have cat: "concat (map chunks_of (take n ds)) =
      ?pre @ chunks_of (ds ! k) @ concat (map chunks_of (drop (Suc k) (take n ds)))"
    by (subst split) simp
  let ?m = "n - length ?pre"
  from assms(2,3) suc have m: "0 < ?m" "?m < length (chunks_of (ds ! k))" by simp_all
  have "take n (concat (map chunks_of (take n ds))) = ?pre @ take ?m (chunks_of (ds ! k))"
    using assms(2) m by (subst cat) simp
  with m show ?thesis by blast
qed

text \<open>
  C9: with a limit \<open>n\<close> set, each of the three preprocessing paths selects the first
  \<open>n\<close> examples, creates the chunks, and selects again the first \<open>n\<close> chunks in chunk
  order. So when \<open>n\<close> falls inside the chunks of an example \<open>k\<close>, only a proper prefix of
  the chunks of that last example is kept. Here \<open>chunks_of\<close> gives the chunks of one
  example, at least one, and \<open>map_features\<close> returns them example after example.
\<close>

theorem second_truncation_by_chunks:
  assumes "(run, split) \<in> {(preprocess_train_dataset, ''train''),
                              (preprocess_eval_dataset, ''validation''),
                              (preprocess_predict_dataset, ''test'')}"
    and "datasets split = Some ds"
    and "n \<le> length ds"
    and "map_features (take n ds) = Inr (concat (map chunks_of (take n ds)))"
    and "\<forall>ex \<in> set ds. chunks_of ex \<noteq> []"
  shows "run map_features (Some (int n)) datasets
           = Inr (take n (concat (map chunks_of (take n ds)))) \<and>
         (\<forall>k. length (concat (map chunks_of (take k ds))) < n \<and>
               n < length (concat (map chunks_of (take (Suc k) ds))) \<longrightarrow>
           (\<exists>m. 0 < m \<and> m < length (chunks_of (ds ! k)) \<and>
              take n (concat (map chunks_of (take n ds)))
                = concat (map chunks_of (take k ds)) @ take m (chunks_of (ds ! k))))"
proof (intro conjI allI impI)
  note twice = truncate_twice [of n ds map_features chunks_of, OF assms(3,4,5)]
  from assms(1) consider
    "run = preprocess_train_dataset" "split = ''train''"
    | "run = preprocess_eval_dataset" "split = ''validation''"
    | "run = preprocess_predict_dataset" "split = ''test''"
    by auto
  then show "run map_features (Some (int n)) datasets
           = Inr (take n (concat (map chunks_of (take n ds))))"
  proof cases
    case 1
    with assms(2) twice show ?thesis
      by (simp add: preprocess_train_dataset_def)
  next
    case 2
    with assms(2) twice show ?thesis
      by (simp add: preprocess_eval_dataset_def)
  next
    case 3
    with assms(2) twice show ?thesis
      by (simp add: preprocess_predict_dataset_def)
  qed
next
  fix k
  assume "length (concat (map chunks_of (take k ds))) < n \<and>
               n < length (concat (map chunks_of (take (Suc k) ds)))"
  with strict_prefix_of_last [OF assms(3) _ _ assms(5)]
  show "\<exists>m. 0 < m \<and> m < length (chunks_of (ds ! k)) \<and>
              take n (concat (map chunks_of (take n ds)))
                = concat (map chunks_of (take k ds)) @ take m (chunks_of (ds ! k))"
    by blast
qed

text \<open>
  Three examples of two chunks each and a limit of 3: the three chunks kept are the two
  of example 0 and the first of example 1.
\<close>

theorem second_truncation_by_chunks_witness:
  "preprocess_train_dataset (\<lambda>exs. Inr (concat (map ex_chunks_of exs))) (Some (int 3)) ex_datasets
     = Inr [(0, 0), (0, 1), (1, 0)] \<and>
   (\<exists>m. 0 < m \<and> m < length (ex_chunks_of ([0, 1, 2] ! 1)) \<and>
      take 3 (concat (map ex_chunks_of (take 3 [0, 1, 2])))
        = concat (map ex_chunks_of (take 1 [0, 1, 2])) @ take m (ex_chunks_of ([0, 1, 2] ! 1)))"
proof -
  have s: "(preprocess_train_dataset, ''train'') \<in>
      {(preprocess_train_dataset, ''train''), (preprocess_eval_dataset, ''validation''),
       (preprocess_predict_dataset, ''test'')}"
    by simp
  have d: "ex_datasets ''train'' = Some [0, 1, 2]" by (simp add: ex_datasets_def)
  have n: "3 \<le> length [0, 1, 2::nat]" by simp
  have e: "\<forall>ex \<in> set [0, 1, 2]. ex_chunks_of ex \<noteq> []" by (simp add: ex_chunks_of_def)
  have l: "length (concat (map ex_chunks_of (take 1 [0, 1, 2::nat]))) < 3 \<and>
           3 < length (concat (map ex_chunks_of (take (Suc 1) [0, 1, 2::nat])))"
    by (simp add: ex_chunks_of_def)
  have t: "take 3 (concat (map ex_chunks_of (take 3 [0, 1, 2]))) = [(0, 0), (0, 1), (1, 0)]"
    by (simp add: ex_chunks_of_def)
  note inst = second_truncation_by_chunks [of preprocess_train_dataset "''train''" ex_datasets
      "[0, 1, 2]" 3 "\<lambda>exs. Inr (concat (map ex_chunks_of exs))" ex_chunks_of, OF s d n refl e]
  from inst have "preprocess_train_dataset (\<lambda>exs. Inr (concat (map ex_chunks_of exs)))
      (Some (int 3)) ex_datasets = Inr (take 3 (concat (map ex_chunks_of (take 3 [0, 1, 2]))))"
    by (rule conjunct1)
  moreover from inst [THEN conjunct2, THEN spec, of 1] l
  have "\<exists>m. 0 < m \<and> m < length (ex_chunks_of ([0, 1, 2] ! 1)) \<and>
      take 3 (concat (map ex_chunks_of (take 3 [0, 1, 2])))
        = concat (map ex_chunks_of (take 1 [0, 1, 2])) @ take m (ex_chunks_of ([0, 1, 2] ! 1))"
    by (rule mp)
  ultimately show ?thesis
    by (simp only: t)
qed

section \<open>Claims on the inference features\<close>

lemma mask_offsets_nth:
  "mask_offsets ctx sids (int k) offs = Inr masked \<Longrightarrow>
   length masked = length offs \<and>
   (\<forall>p < length offs. k + p < length sids \<and>
      masked ! p = (if sids ! (k + p) = Some ctx then offs ! p else None))"
proof (induction offs arbitrary: k masked)
  case Nil
  then show ?case by simp
next
  case (Cons off rest)
  from Cons.prems obtain sid m where
    sid: "py_get sids (int k) = Inr sid"
    and m: "mask_offsets ctx sids (int (Suc k)) rest = Inr m"
    and masked: "masked = (if sid = Some ctx then off else None) # m"
    by (auto dest!: bind_err_Inr simp: add.commute)
  from py_get_nat_Inr [OF sid] have k: "k < length sids" "sid = sids ! k" by simp_all
  from Cons.IH [OF m] have IH: "length m = length rest"
    "\<And>p. p < length rest \<Longrightarrow> Suc k + p < length sids \<and>
      m ! p = (if sids ! (Suc k + p) = Some ctx then rest ! p else None)"
    by simp_all
  show ?case
  proof (intro conjI allI impI)
    show "length masked = length (off # rest)" using masked IH(1) by simp
  next
    fix p assume p: "p < length (off # rest)"
    show "k + p < length sids" using p k IH(2) [of "p - 1"] by (cases p) auto
    show "masked ! p = (if sids ! (k + p) = Some ctx then (off # rest) ! p else None)"
      using p k masked IH(2) [of "p - 1"] by (cases p) auto
  qed
qed

text \<open>
  What the loop leaves behind when it has visited the positions \<open>is\<close>, each once: one
  new example id per position, the entries at the visited positions masked, and the
  others as they were.
\<close>

lemma validation_chunks_inv:
  assumes "validation_chunks por ids tok is st = Inr (eids, om)" "distinct is"
  shows "length om = length (snd st) \<and>
         (\<exists>new. eids = fst st @ new \<and> length new = length is \<and>
            (\<forall>p < length is. \<exists>si.
                py_get (overflow_to_sample_mapping tok) (int (is ! p)) = Inr si \<and>
                py_get ids si = Inr (new ! p))) \<and>
         (\<forall>j. j \<notin> set is \<longrightarrow> om ! j = snd st ! j) \<and>
         (\<forall>j \<in> set is. j < length (snd st) \<and>
            (\<exists>sids. py_get (sequence_ids tok) (int j) = Inr sids \<and>
               mask_offsets (context_index por) sids 0 (snd st ! j) = Inr (om ! j)))"
  using assms
proof (induction "is" arbitrary: st)
  case Nil
  then show ?case by simp
next
  case (Cons i rest)
  from Cons.prems(1) obtain sids si eid offsets masked where step:
    "py_get (sequence_ids tok) (int i) = Inr sids"
    "py_get (overflow_to_sample_mapping tok) (int i) = Inr si"
    "py_get ids si = Inr eid"
    "py_get (snd st) (int i) = Inr offsets"
    "mask_offsets (context_index por) sids 0 offsets = Inr masked"
    and rest: "validation_chunks por ids tok rest (fst st @ [eid], (snd st)[i := masked])
      = Inr (eids, om)"
    by (auto dest!: bind_err_Inr)
  from py_get_nat_Inr [OF step(4)] have i: "i < length (snd st)" "offsets = snd st ! i"
    by simp_all
  from Cons.prems(2) have d: "distinct rest" "i \<notin> set rest" by simp_all
  from Cons.IH [OF rest d(1)] obtain new where IH:
    "length om = length (snd st)"
    "eids = (fst st @ [eid]) @ new" "length new = length rest"
    "\<And>p. p < length rest \<Longrightarrow> \<exists>si.
        py_get (overflow_to_sample_mapping tok) (int (rest ! p)) = Inr si \<and>
        py_get ids si = Inr (new ! p)"
    "\<And>j. j \<notin> set rest \<Longrightarrow> om ! j = (snd st)[i := masked] ! j"
    "\<And>j. j \<in> set rest \<Longrightarrow> j < length (snd st) \<and>
        (\<exists>sids. py_get (sequence_ids tok) (int j) = Inr sids \<and>
           mask_offsets (context_index por) sids 0 ((snd st)[i := masked] ! j) = Inr (om ! j))"
    by auto
  have e: "\<exists>new'. eids = fst st @ new' \<and> length new' = length (i # rest) \<and>
            (\<forall>p < length (i # rest). \<exists>si.
                py_get (overflow_to_sample_mapping tok) (int ((i # rest) ! p)) = Inr si \<and>
                py_get ids si = Inr (new' ! p))"
  proof (intro exI [of _ "eid # new"] conjI allI impI)
    show "eids = fst st @ eid # new" using IH(2) by simp
    show "length (eid # new) = length (i # rest)" using IH(3) by simp
    fix p assume "p < length (i # rest)"
    then show "\<exists>si. py_get (overflow_to_sample_mapping tok) (int ((i # rest) ! p)) = Inr si \<and>
                py_get ids si = Inr ((eid # new) ! p)"
      using step(2,3) IH(4) [of "p - 1"] by (cases p) auto
  qed
  have unchanged: "\<forall>j. j \<notin> set (i # rest) \<longrightarrow> om ! j = snd st ! j"
    using IH(5) by auto
  have masked: "\<forall>j \<in> set (i # rest). j < length (snd st) \<and>
      (\<exists>sids. py_get (sequence_ids tok) (int j) = Inr sids \<and>
         mask_offsets (context_index por) sids 0 (snd st ! j) = Inr (om ! j))"
  proof
    fix j assume j: "j \<in> set (i # rest)"
    show "j < length (snd st) \<and> (\<exists>sids. py_get (sequence_ids tok) (int j) = Inr sids \<and>
             mask_offsets (context_index por) sids 0 (snd st ! j) = Inr (om ! j))"
    proof (cases "j = i")
      case True
      with IH(5) [of i] d(2) i step(1,5) show ?thesis by auto
    next
      case False
      with j have "j \<in> set rest" by simp
      from IH(6) [OF this] False show ?thesis by auto
    qed
  qed
  from IH(1) e unchanged masked show ?case by blast
qed

lemma validation_chunks_example_id:
  assumes "validation_chunks por ids tok is st = Inr (eids, om)" "distinct is" "p < length is"
  shows "\<exists>si. py_get (overflow_to_sample_mapping tok) (int (is ! p)) = Inr si \<and>
              py_get ids si = Inr (eids ! (length (fst st) + p))"
proof -
  from validation_chunks_inv [OF assms(1,2)] obtain new where
    "eids = fst st @ new"
    "\<forall>p < length is. \<exists>si. py_get (overflow_to_sample_mapping tok) (int (is ! p)) = Inr si \<and>
                py_get ids si = Inr (new ! p)"
    by blast
  with assms(3) show ?thesis by simp
qed

lemma validation_chunks_masked:
  assumes "validation_chunks por ids tok is st = Inr (eids, om)" "distinct is" "j \<in> set is"
  shows "j < length (snd st) \<and> (\<exists>sids. py_get (sequence_ids tok) (int j) = Inr sids \<and>
             mask_offsets (context_index por) sids 0 (snd st ! j) = Inr (om ! j))"
  using validation_chunks_inv [OF assms(1,2)] assms(3) by blast

text \<open>
  The loop returns when every position it visits has its sequence ids, its example and
  its offsets, and no more offsets than sequence ids.
\<close>

lemma mask_offsets_returns:
  "k + length offs \<le> length sids \<Longrightarrow> \<exists>m. mask_offsets ctx sids (int k) offs = Inr m"
proof (induction offs arbitrary: k)
  case Nil
  then show ?case by simp
next
  case (Cons off rest)
  then have k: "k < length sids" and "Suc k + length rest \<le> length sids" by simp_all
  from Cons.IH [OF this(2)] obtain m where "mask_offsets ctx sids (int (Suc k)) rest = Inr m"
    by blast
  with k show ?case by (simp add: py_get_nat add.commute)
qed

lemma validation_chunks_returns:
  assumes "distinct is"
    and "\<forall>i \<in> set is. i < length (sequence_ids tok) \<and>
           i < length (overflow_to_sample_mapping tok) \<and>
           i < length (snd st) \<and> length (snd st ! i) \<le> length (sequence_ids tok ! i) \<and>
           (\<exists>eid. py_get ids (overflow_to_sample_mapping tok ! i) = Inr eid)"
  shows "\<exists>eids om. validation_chunks por ids tok is st = Inr (eids, om)"
  using assms
proof (induction "is" arbitrary: st)
  case Nil
  then show ?case by (cases st) simp
next
  case (Cons i rest)
  from Cons.prems(2) have i: "i < length (sequence_ids tok)"
    "i < length (overflow_to_sample_mapping tok)" "i < length (snd st)"
    "length (snd st ! i) \<le> length (sequence_ids tok ! i)"
    and "\<exists>eid. py_get ids (overflow_to_sample_mapping tok ! i) = Inr eid"
    by simp_all
  then obtain eid where eid: "py_get ids (overflow_to_sample_mapping tok ! i) = Inr eid"
    by blast
  from mask_offsets_returns [of 0 "snd st ! i" "sequence_ids tok ! i" "context_index por"] i(4)
  obtain masked where
    m: "mask_offsets (context_index por) (sequence_ids tok ! i) 0 (snd st ! i) = Inr masked"
    by auto
  let ?st = "(fst st @ [eid], (snd st)[i := masked])"
  from Cons.prems(1) have d: "distinct rest" "i \<notin> set rest" by simp_all
  have "\<forall>j \<in> set rest. j < length (sequence_ids tok) \<and>
           j < length (overflow_to_sample_mapping tok) \<and>
           j < length (snd ?st) \<and> length (snd ?st ! j) \<le> length (sequence_ids tok ! j) \<and>
           (\<exists>eid. py_get ids (overflow_to_sample_mapping tok ! j) = Inr eid)"
  proof
    fix j assume j: "j \<in> set rest"
    with d(2) have "j \<noteq> i" by auto
    with Cons.prems(2) j show "j < length (sequence_ids tok) \<and>
           j < length (overflow_to_sample_mapping tok) \<and>
           j < length (snd ?st) \<and> length (snd ?st ! j) \<le> length (sequence_ids tok ! j) \<and>
           (\<exists>eid. py_get ids (overflow_to_sample_mapping tok ! j) = Inr eid)"
      by simp
  qed
  from Cons.IH [OF d(1) this] obtain eids om where
    "validation_chunks por ids tok rest ?st = Inr (eids, om)" by blast
  with i eid m show ?case by (simp add: py_get_nat)
qed

lemma ex_validation_features:
  "prepare_validation_features True ex_id_col ex_tokenized =
   Inr ([[113, 49], [113, 49], [113, 50]],
        [[None, None, None, Some (0, 5), Some (6, 8), Some (9, 12), None],
         [None, None, None, Some (9, 12), Some (13, 15), Some (16, 17), None],
         [None, None, None, Some (0, 5), Some (6, 8), Some (9, 12), None]])"
  by (simp add: prepare_validation_features_def ex_tokenized_def ex_ids_def ex_sids_def
      ex_id_col_def ex_offsets_def ex_offsets_late_def context_index_def py_get_def upt_rec)

text \<open>
  What a returned batch holds for its chunk \<open>i\<close>: the id of the chunk's example and the
  masked offsets.
\<close>

lemma validation_offsets_masked_returned:
  assumes "prepare_validation_features por ids tok = Inr (example_id, om)"
    and "i < length (input_ids tok)"
  shows "py_get ids (overflow_to_sample_mapping tok ! i) = Inr (example_id ! i) \<and>
         length (om ! i) = length (offset_mapping tok ! i) \<and>
         (\<forall>k < length (offset_mapping tok ! i).
            om ! i ! k = (if sequence_ids tok ! i ! k = Some (context_index por)
                          then Some (offset_mapping tok ! i ! k) else None))"
proof -
  let ?st = "([], map (map Some) (offset_mapping tok))
    :: pystr list \<times> (int \<times> int) option list list"
  from assms(1)
  have run: "validation_chunks por ids tok [0 ..< length (input_ids tok)] ?st
      = Inr (example_id, om)"
    by (simp add: prepare_validation_features_def)
  from validation_chunks_example_id [OF run distinct_upt, of i] assms(2) obtain si where
    "py_get (overflow_to_sample_mapping tok) (int i) = Inr si"
    "py_get ids si = Inr (example_id ! i)"
    by auto
  then have id: "py_get ids (overflow_to_sample_mapping tok ! i) = Inr (example_id ! i)"
    by (auto dest: py_get_nat_Inr)
  from validation_chunks_masked [OF run distinct_upt, of i] assms(2)
  obtain sids where i: "i < length (offset_mapping tok)"
    and sids: "py_get (sequence_ids tok) (int i) = Inr sids"
    and m: "mask_offsets (context_index por) sids (int 0) (map Some (offset_mapping tok ! i))
      = Inr (om ! i)"
    by auto
  from py_get_nat_Inr [OF sids] have s: "sids = sequence_ids tok ! i" by simp
  from mask_offsets_nth [OF m] s id show ?thesis by simp
qed

lemma validation_lengths:
  assumes "prepare_validation_features por ids tok = Inr (example_id, om)"
  shows "length example_id = length (input_ids tok) \<and> length om = length (offset_mapping tok)"
proof -
  let ?st = "([], map (map Some) (offset_mapping tok))
    :: pystr list \<times> (int \<times> int) option list list"
  from assms
  have run: "validation_chunks por ids tok [0 ..< length (input_ids tok)] ?st
      = Inr (example_id, om)"
    by (simp add: prepare_validation_features_def)
  from validation_chunks_inv [OF run distinct_upt] obtain new where
    "length om = length (snd ?st)" "example_id = fst ?st @ new"
    "length new = length [0 ..< length (input_ids tok)]"
    by blast
  then show ?thesis by simp
qed

text \<open>
  C4: take a batch in which every chunk has its sequence ids, its sample index and its
  offsets, no more offsets than sequence ids, and a sample index that is a row of the
  \<open>id\<close> column. Then \<open>prepare_validation_features\<close> returns, and for every chunk \<open>i\<close> it
  has attached the id of the chunk's example, and the new offsets of the chunk have the
  old length, with \<open>None\<close> at every position whose sequence id is not the context index
  and the old offset, unchanged, at every context position.
\<close>

theorem validation_offsets_masked:
  assumes lens: "length (input_ids tok) \<le> length (sequence_ids tok)"
      "length (input_ids tok) \<le> length (overflow_to_sample_mapping tok)"
      "length (input_ids tok) \<le> length (offset_mapping tok)"
    and sids: "\<forall>i < length (input_ids tok).
      length (offset_mapping tok ! i) \<le> length (sequence_ids tok ! i)"
    and samples: "\<forall>i < length (input_ids tok).
      \<exists>eid. py_get ids (overflow_to_sample_mapping tok ! i) = Inr eid"
  shows "\<exists>example_id om. prepare_validation_features por ids tok = Inr (example_id, om) \<and>
           length example_id = length (input_ids tok) \<and> length om = length (offset_mapping tok) \<and>
           (\<forall>i < length (input_ids tok).
              py_get ids (overflow_to_sample_mapping tok ! i) = Inr (example_id ! i) \<and>
              length (om ! i) = length (offset_mapping tok ! i) \<and>
              (\<forall>k < length (offset_mapping tok ! i).
                 om ! i ! k = (if sequence_ids tok ! i ! k = Some (context_index por)
                               then Some (offset_mapping tok ! i ! k) else None)))"
proof -
  let ?st = "([], map (map Some) (offset_mapping tok))
    :: pystr list \<times> (int \<times> int) option list list"
  have "\<forall>i \<in> set [0 ..< length (input_ids tok)].
           i < length (sequence_ids tok) \<and> i < length (overflow_to_sample_mapping tok) \<and>
           i < length (snd ?st) \<and> length (snd ?st ! i) \<le> length (sequence_ids tok ! i) \<and>
           (\<exists>eid. py_get ids (overflow_to_sample_mapping tok ! i) = Inr eid)"
    using lens sids samples by simp
  from validation_chunks_returns [OF distinct_upt this, where por = por]
  obtain example_id om where
    run: "prepare_validation_features por ids tok = Inr (example_id, om)"
    by (auto simp: prepare_validation_features_def)
  from validation_lengths [OF run] validation_offsets_masked_returned [OF run] run
  show ?thesis
    by blast
qed

text \<open>
  The example batch returns, with the ids \<open>q1\<close>, \<open>q1\<close>, \<open>q2\<close>. In its second chunk, a
  chunk of example \<open>q1\<close>, the offset of the \<open>[SEP]\<close> at position 2 becomes \<open>None\<close> and the
  context token at position 3 keeps its offset \<open>(9, 12)\<close>.
\<close>

theorem validation_offsets_masked_witness:
  "prepare_validation_features True ex_id_col ex_tokenized =
     Inr ([[113, 49], [113, 49], [113, 50]],
          [[None, None, None, Some (0, 5), Some (6, 8), Some (9, 12), None],
           [None, None, None, Some (9, 12), Some (13, 15), Some (16, 17), None],
           [None, None, None, Some (0, 5), Some (6, 8), Some (9, 12), None]]) \<and>
   (\<exists>example_id om.
      prepare_validation_features True ex_id_col ex_tokenized = Inr (example_id, om) \<and>
      length example_id = length (input_ids ex_tokenized) \<and>
      py_get ex_id_col (overflow_to_sample_mapping ex_tokenized ! 1) = Inr (example_id ! 1) \<and>
      om ! 1 ! 2 = None \<and> om ! 1 ! 3 = Some (offset_mapping ex_tokenized ! 1 ! 3))"
proof -
  have lens: "length (input_ids ex_tokenized) \<le> length (sequence_ids ex_tokenized)"
      "length (input_ids ex_tokenized) \<le> length (overflow_to_sample_mapping ex_tokenized)"
      "length (input_ids ex_tokenized) \<le> length (offset_mapping ex_tokenized)"
    by (simp_all add: ex_tokenized_def)
  have three: "i = 0 \<or> i = 1 \<or> i = 2" if "i < length (input_ids ex_tokenized)" for i
    using that by (auto simp: ex_tokenized_def)
  have sids: "\<forall>i < length (input_ids ex_tokenized).
      length (offset_mapping ex_tokenized ! i) \<le> length (sequence_ids ex_tokenized ! i)"
  proof (intro allI impI)
    fix i assume "i < length (input_ids ex_tokenized)"
    from three [OF this]
    show "length (offset_mapping ex_tokenized ! i) \<le> length (sequence_ids ex_tokenized ! i)"
      by (auto simp: ex_tokenized_def ex_offsets_def ex_offsets_late_def ex_sids_def)
  qed
  have samples: "\<forall>i < length (input_ids ex_tokenized).
      \<exists>eid. py_get ex_id_col (overflow_to_sample_mapping ex_tokenized ! i) = Inr eid"
  proof (intro allI impI)
    fix i assume "i < length (input_ids ex_tokenized)"
    from three [OF this]
    show "\<exists>eid. py_get ex_id_col (overflow_to_sample_mapping ex_tokenized ! i) = Inr eid"
      by (auto simp: ex_tokenized_def ex_id_col_def py_get_def)
  qed
  from validation_offsets_masked [OF lens sids samples, of True] obtain example_id om where r:
    "prepare_validation_features True ex_id_col ex_tokenized = Inr (example_id, om)"
    "length example_id = length (input_ids ex_tokenized)"
    "\<forall>i < length (input_ids ex_tokenized).
       py_get ex_id_col (overflow_to_sample_mapping ex_tokenized ! i) = Inr (example_id ! i) \<and>
       length (om ! i) = length (offset_mapping ex_tokenized ! i) \<and>
       (\<forall>k < length (offset_mapping ex_tokenized ! i).
          om ! i ! k = (if sequence_ids ex_tokenized ! i ! k = Some (context_index True)
                        then Some (offset_mapping ex_tokenized ! i ! k) else None))"
    by blast
  have one: "1 < length (input_ids ex_tokenized)" by (simp add: ex_tokenized_def)
  from r(3) one
  have id: "py_get ex_id_col (overflow_to_sample_mapping ex_tokenized ! 1) = Inr (example_id ! 1)"
    and m: "\<forall>k < length (offset_mapping ex_tokenized ! 1).
          om ! 1 ! k = (if sequence_ids ex_tokenized ! 1 ! k = Some (context_index True)
                        then Some (offset_mapping ex_tokenized ! 1 ! k) else None)"
    by blast+
  have "2 < length (offset_mapping ex_tokenized ! 1)" "3 < length (offset_mapping ex_tokenized ! 1)"
    by (simp_all add: ex_tokenized_def ex_offsets_late_def)
  with m have "om ! 1 ! 2 = None" "om ! 1 ! 3 = Some (offset_mapping ex_tokenized ! 1 ! 3)"
    by (simp_all add: ex_tokenized_def ex_sids_def context_index_def)
  with r(1,2) id ex_validation_features show ?thesis by blast
qed

section \<open>Claims on the formatting for the metric\<close>

text \<open>
  C7: when the predictions hold one item per example, under the example's id, the
  result holds one prediction record per example, with the keys \<open>id\<close> and
  \<open>prediction_text\<close>, and \<open>no_answer_probability\<close> as well when negative answers are
  enabled, and one reference record per example with the keys \<open>id\<close> and \<open>answers\<close>.
\<close>

theorem metric_records:
  assumes "map fst (postprocess examples features preds) = map ex_id examples"
  shows "length (predictions (post_processing_function v2 postprocess examples features preds))
           = length examples \<and>
         length (label_ids (post_processing_function v2 postprocess examples features preds))
           = length examples \<and>
         (\<forall>i < length examples.
            predictions (post_processing_function v2 postprocess examples features preds) ! i =
              (if v2 then [(''id'', Str (ex_id (examples ! i))),
                           (''prediction_text'', Str (snd (postprocess examples features preds ! i))),
                           (''no_answer_probability'', Float 0)]
               else [(''id'', Str (ex_id (examples ! i))),
                     (''prediction_text'', Str (snd (postprocess examples features preds ! i)))]) \<and>
            label_ids (post_processing_function v2 postprocess examples features preds) ! i =
              [(''id'', Str (ex_id (examples ! i))),
               (''answers'', Answers (ex_answers (examples ! i)))])"
proof -
  let ?items = "postprocess examples features preds"
  from assms have len: "length ?items = length examples"
    by (metis length_map)
  have key: "fst (?items ! i) = ex_id (examples ! i)" if "i < length examples" for i
    using that len assms by (metis nth_map)
  show ?thesis
    using len key by (auto simp: post_processing_function_def Let_def case_prod_unfold)
qed

theorem metric_records_witness:
  "map fst ex_predictions = map ex_id ex_examples \<and>
   predictions (post_processing_function False (\<lambda>exs f p. ex_predictions) ex_examples () ())
     = [[(''id'', Str [113, 49]), (''prediction_text'', Str [1, 2])],
        [(''id'', Str [113, 50]), (''prediction_text'', Str [])]] \<and>
   length (label_ids (post_processing_function False (\<lambda>exs f p. ex_predictions) ex_examples () ()))
     = length ex_examples"
  using metric_records [of "\<lambda>exs f p. ex_predictions" ex_examples "()" "()" False]
  by (simp add: ex_predictions_def ex_examples_def post_processing_function_def)

text \<open>
  C8: with \<open>version_2_with_negative\<close>, the \<open>no_answer_probability\<close> of every formatted
  prediction is the constant 0.0, whatever the examples, the features, the logits and
  the post-processing are.
\<close>

theorem no_answer_probability_is_zero:
  assumes "r \<in> set (predictions
      (post_processing_function True postprocess examples features preds))"
  shows "map_of r ''no_answer_probability'' = Some (Float 0)"
  using assms by (auto simp: post_processing_function_def Let_def)

theorem no_answer_probability_is_zero_witness:
  "[(''id'', Str [113, 50]), (''prediction_text'', Str []), (''no_answer_probability'', Float 0)]
     \<in> set (predictions
         (post_processing_function True (\<lambda>exs f p. ex_predictions) ex_examples () ())) \<and>
   map_of [(''id'', Str [113, 50]), (''prediction_text'', Str []),
           (''no_answer_probability'', Float 0)] ''no_answer_probability'' = Some (Float 0)"
  using no_answer_probability_is_zero [of
      "[(''id'', Str [113, 50]), (''prediction_text'', Str []),
        (''no_answer_probability'', Float 0)]"
      "\<lambda>exs f p. ex_predictions" ex_examples "()" "()"]
  by (simp add: ex_predictions_def post_processing_function_def)

section \<open>Claims on the final answer\<close>

lemma set_insert_by_score: "set (insert_by_score c ds) = insert c (set ds)"
  by (induction ds) auto

lemma set_rank_candidates: "set (rank_candidates pool) = set pool"
  unfolding rank_candidates_def by (induction pool) (auto simp: set_insert_by_score)

lemma sorted_insert_by_score:
  "sorted_wrt (\<lambda>a b. cand_score b \<le> cand_score a) ds \<Longrightarrow>
   sorted_wrt (\<lambda>a b. cand_score b \<le> cand_score a) (insert_by_score c ds)"
  by (induction ds) (auto simp: set_insert_by_score)

lemma sorted_rank_candidates:
  "sorted_wrt (\<lambda>a b. cand_score b \<le> cand_score a) (rank_candidates pool)"
  unfolding rank_candidates_def by (induction pool) (auto simp: sorted_insert_by_score)

lemma find_sorted_best:
  "sorted_wrt R xs \<Longrightarrow> find P xs = Some b \<Longrightarrow> c \<in> set xs \<Longrightarrow> P c \<Longrightarrow> c = b \<or> R b c"
  by (induction xs) (auto split: if_splits)

lemma find_Some_set: "find P xs = Some b \<Longrightarrow> b \<in> set xs \<and> P b"
  by (induction xs) (auto split: if_splits)

lemma find_exists: "c \<in> set xs \<Longrightarrow> P c \<Longrightarrow> \<exists>b. find P xs = Some b"
  by (induction xs) auto

text \<open>
  The best non-null candidate is a candidate of the pool with a text, and no candidate
  with a text has a higher score.
\<close>

lemma best_non_null_best:
  assumes "c0 \<in> set pool" "cand_text c0 \<noteq> []"
  shows "\<exists>best. best_non_null pool = Some best \<and> best \<in> set pool \<and> cand_text best \<noteq> [] \<and>
          (\<forall>c \<in> set pool. cand_text c \<noteq> [] \<longrightarrow> cand_score c \<le> cand_score best)"
proof -
  from assms obtain best where
    b: "find (\<lambda>c. cand_text c \<noteq> []) (rank_candidates pool) = Some best"
    using find_exists [of c0 "rank_candidates pool" "\<lambda>c. cand_text c \<noteq> []"]
    by (auto simp: set_rank_candidates)
  from find_Some_set [OF b] have m: "best \<in> set pool" "cand_text best \<noteq> []"
    by (simp_all add: set_rank_candidates)
  have "cand_score c \<le> cand_score best" if "c \<in> set pool" "cand_text c \<noteq> []" for c
    using find_sorted_best [OF sorted_rank_candidates b, of c] that
    by (auto simp: set_rank_candidates)
  with b m show ?thesis by (auto simp: best_non_null_def)
qed

text \<open>
  C6: with negative answers enabled and a pool that holds a candidate with a text, the
  final answer is decided by \<open>score_diff = null_score - best_non_null_score\<close>, where the
  best non-null candidate is a candidate with a text of the highest score: "no answer"
  (the empty string) with the null score recorded if
  \<open>score_diff > null_score_diff_threshold\<close>, and the text of the best non-null candidate
  otherwise.
\<close>

theorem negative_answer_decision:
  assumes "c0 \<in> set pool" "cand_text c0 \<noteq> []"
  shows "\<exists>best \<in> set pool. cand_text best \<noteq> [] \<and>
           (\<forall>c \<in> set pool. cand_text c \<noteq> [] \<longrightarrow> cand_score c \<le> cand_score best) \<and>
           select_final_answer True threshold null_score pool =
             Some (if null_score - cand_score best > threshold then No_answer null_score
                   else Answer (cand_text best)) \<and>
           map_option final_text (select_final_answer True threshold null_score pool) =
             Some (if null_score - cand_score best > threshold then []
                   else cand_text best)"
proof -
  from best_non_null_best [OF assms] obtain best where
    "best_non_null pool = Some best" "best \<in> set pool" "cand_text best \<noteq> []"
    "\<forall>c \<in> set pool. cand_text c \<noteq> [] \<longrightarrow> cand_score c \<le> cand_score best"
    by blast
  then show ?thesis
    by (intro bexI [of _ best]) (simp_all add: select_final_answer_def)
qed

text \<open>
  In the example pool the best candidate with a text has the score 5. With the null
  score 8 the difference is 3: "no answer" under the threshold 2, the text under 3.
\<close>

theorem negative_answer_decision_witness:
  "\<lparr>cand_text = [84], cand_score = 5\<rparr> \<in> set ex_pool \<and>
   select_final_answer True 2 8 ex_pool = Some (No_answer 8) \<and>
   select_final_answer True 3 8 ex_pool = Some (Answer [84])"
proof -
  have m: "\<lparr>cand_text = [84], cand_score = 5\<rparr> \<in> set ex_pool"
    by (simp add: ex_pool_def)
  have r: "select_final_answer True 2 8 ex_pool = Some (No_answer 8)"
    "select_final_answer True 3 8 ex_pool = Some (Answer [84])"
    by (simp_all add: select_final_answer_def best_non_null_def rank_candidates_def ex_pool_def)
  from negative_answer_decision [OF m, of 2 8] m r show ?thesis by simp
qed

end
